(* ===== verification/Prelude.thy ===== *)
theory Prelude
  imports Main "HOL-Library.Word" "HOL-Library.Monad_Syntax"
begin

section \<open>Shared vocabulary: bytes, fixed buffers, strings\<close>

unbundle bit_operations_syntax

text \<open>
  What every component uses: the widths of the C++ integers, fixed \<open>char\<close> arrays that a
  system call fills, little-endian fields read out of them, and the strings of the program.
  The program runs on a little-endian Linux host (the file headers of the repository name
  Linux desktops); every host-order integer is laid out so.
\<close>

named_theorems layout_simps "sizes and offsets of the wire structures"
named_theorems holds_intros "facts about where a byte string lies in a buffer"

type_synonym u8 = "8 word"
type_synonym u16 = "16 word"
type_synonym bytes = "u8 list"

text \<open>A fixed array: its content at each index. Its size is a parameter of the readers.\<close>

type_synonym buf = "nat \<Rightarrow> u8"

subsection \<open>Reading a fixed array\<close>

text \<open>
  A read outside the array has no defined result, which is \<open>None\<close>. A read inside it
  that lies past the bytes the last system call stored gives whatever the array holds.
\<close>

definition rd8 :: "nat \<Rightarrow> buf \<Rightarrow> nat \<Rightarrow> nat option" where
  "rd8 cap m i = (if i < cap then Some (unat (m i)) else None)"

definition rd16 :: "nat \<Rightarrow> buf \<Rightarrow> nat \<Rightarrow> nat option" where
  "rd16 cap m i = (if i + 1 < cap then Some (unat (m i) + 256 * unat (m (i + 1))) else None)"

definition rd32 :: "nat \<Rightarrow> buf \<Rightarrow> nat \<Rightarrow> nat option" where
  "rd32 cap m i =
     (if i + 3 < cap
      then Some (unat (m i) + 256 * unat (m (i + 1)) + 65536 * unat (m (i + 2))
                 + 16777216 * unat (m (i + 3)))
      else None)"

text \<open>The bytes of \<open>[i, i + k)\<close>; \<open>None\<close> when they do not all lie in the array.\<close>

definition rd_bytes :: "nat \<Rightarrow> buf \<Rightarrow> nat \<Rightarrow> nat \<Rightarrow> bytes option" where
  "rd_bytes cap m i k = (if k = 0 \<or> i + k \<le> cap then Some (map m [i..<i + k]) else None)"

text \<open>A 32-bit pattern read as C's \<open>int\<close>.\<close>

definition to_i32 :: "nat \<Rightarrow> int" where
  "to_i32 n = (if n < 2 ^ 31 then int n else int n - 2 ^ 32)"

definition of_i32 :: "int \<Rightarrow> nat" where
  "of_i32 i = nat (i mod 2 ^ 32)"

lemma to_i32_of_i32: "- (2 ^ 31) \<le> i \<Longrightarrow> i < 2 ^ 31 \<Longrightarrow> to_i32 (of_i32 i) = i"
proof (cases "0 \<le> i")
  case False
  assume *: "- (2 ^ 31) \<le> i" "i < 2 ^ 31"
  have "(i + 2 ^ 32) mod 2 ^ 32 = i + 2 ^ 32"
    using * False by (intro mod_pos_pos_trivial) auto
  then have "i mod 2 ^ 32 = i + 2 ^ 32" by simp
  with * False show ?thesis by (simp add: to_i32_def of_i32_def)
qed (auto simp: to_i32_def of_i32_def)

lemma of_i32_less [simp]: "of_i32 i < 4294967296"
  by (simp add: of_i32_def nat_less_iff)

subsection \<open>Writing: little-endian fields as byte lists\<close>

definition le16 :: "nat \<Rightarrow> bytes" where
  "le16 n = [of_nat n, of_nat (n div 256)]"

definition le32 :: "nat \<Rightarrow> bytes" where
  "le32 n = [of_nat n, of_nat (n div 256), of_nat (n div 65536), of_nat (n div 16777216)]"

lemma length_le [simp, layout_simps]: "length (le16 n) = 2" "length (le32 n) = 4"
  by (simp_all add: le16_def le32_def)

lemma unat_of_nat8 [simp]: "unat (of_nat n :: u8) = n mod 256"
  by (simp add: unat_of_nat)

subsection \<open>Where a byte string lies in an array\<close>

definition holds :: "buf \<Rightarrow> nat \<Rightarrow> bytes \<Rightarrow> bool" where
  "holds m i xs \<longleftrightarrow> (\<forall>k < length xs. m (i + k) = xs ! k)"

text \<open>What \<open>recv\<close> and its like do to an array: the bytes they store, the rest as it was.\<close>

definition store :: "bytes \<Rightarrow> buf \<Rightarrow> buf" where
  "store xs m = (\<lambda>i. if i < length xs then xs ! i else m i)"

lemma holds_store [simp, holds_intros]: "holds (store xs m) 0 xs"
  by (simp add: holds_def store_def)

lemma holds_Nil [simp]: "holds m i []"
  by (simp add: holds_def)

lemma holds_Cons [simp]: "holds m i (x # xs) \<longleftrightarrow> m i = x \<and> holds m (Suc i) xs"
proof
  assume h: "holds m i (x # xs)"
  have "m (i + k) = (x # xs) ! k" if "k < Suc (length xs)" for k
    using h that by (simp add: holds_def)
  from this [of 0] this [of "Suc k" for k] show "m i = x \<and> holds m (Suc i) xs"
    by (simp add: holds_def)
next
  assume "m i = x \<and> holds m (Suc i) xs"
  then have "m (i + k) = (x # xs) ! k" if "k < Suc (length xs)" for k
    using that by (cases k) (simp_all add: holds_def)
  then show "holds m i (x # xs)" by (simp add: holds_def)
qed

lemma holds_append [simp]:
  "holds m i (xs @ ys) \<longleftrightarrow> holds m i xs \<and> holds m (i + length xs) ys"
  by (induction xs arbitrary: i) simp_all

lemma holds_take: "holds m i xs \<Longrightarrow> holds m i (take k xs)"
  by (simp add: holds_def)

lemma holds_butlast: "holds m i xs \<Longrightarrow> holds m i (butlast xs)"
  by (simp add: butlast_conv_take holds_take)

lemma replicate_4: "replicate 4 x = [x, x, x, x]"
  by (simp add: numeral_eq_Suc)

lemma rd_bytes_holds [holds_intros]:
  "holds m i xs \<Longrightarrow> i + length xs \<le> cap \<Longrightarrow> k = length xs \<Longrightarrow> rd_bytes cap m i k = Some xs"
  by (auto simp: rd_bytes_def holds_def intro!: nth_equalityI)

lemma rd8_holds [holds_intros]: "holds m i [b] \<Longrightarrow> i < cap \<Longrightarrow> rd8 cap m i = Some (unat b)"
  by (simp add: rd8_def)

lemma rd16_holds [holds_intros]:
  "holds m i (le16 n) \<Longrightarrow> i + 1 < cap \<Longrightarrow> n < 65536 \<Longrightarrow> rd16 cap m i = Some n"
  by (simp add: rd16_def le16_def)

lemma rd32_holds [holds_intros]:
  assumes "holds m i (le32 n)" and "i + 3 < cap" and "n < 4294967296"
  shows "rd32 cap m i = Some n"
proof -
  define a b c where "a = n div 256" and "b = a div 256" and "c = b div 256"
  then have ab: "n div 65536 = b" "n div 16777216 = c"
    by (simp_all flip: div_mult2_eq)
  have "c < 256" using assms(3) by (simp flip: ab add: less_mult_imp_div_less)
  then have "c mod 256 = c" by simp
  moreover have "n = 256 * a + n mod 256" and "a = 256 * b + a mod 256" and "b = 256 * c + b mod 256"
    by (simp_all add: a_def b_def c_def)
  ultimately have "n mod 256 + 256 * (a mod 256) + 65536 * (b mod 256) + 16777216 * (c mod 256) = n"
    by linarith
  then have "n mod 256 + 256 * (n div 256 mod 256) + 65536 * (n div 65536 mod 256)
        + 16777216 * (n div 16777216 mod 256) = n"
    by (simp only: ab a_def)
  with assms show ?thesis by (simp add: rd32_def le32_def numeral_3_eq_3 numeral_2_eq_2)
qed

subsection \<open>Strings and bytes\<close>

definition bytes_of :: "string \<Rightarrow> bytes" where
  "bytes_of s = map (\<lambda>c. of_nat (of_char c)) s"

definition string_of :: "bytes \<Rightarrow> string" where
  "string_of bs = map (\<lambda>b. char_of (unat b)) bs"

lemma length_bytes_of [simp]: "length (bytes_of s) = length s"
  by (simp add: bytes_of_def)

lemma string_of_bytes_of [simp]: "string_of (bytes_of s) = s"
  by (simp add: string_of_def bytes_of_def comp_def)

text \<open>\<open>%d\<close> and \<open>QString::arg(int)\<close>: a number in decimal.\<close>

fun show_nat :: "nat \<Rightarrow> string" where
  "show_nat n = (if n < 10 then [char_of (48 + n)] else show_nat (n div 10) @ [char_of (48 + n mod 10)])"

declare show_nat.simps [simp del]

definition show_int :: "int \<Rightarrow> string" where
  "show_int i = (if i < 0 then CHR ''-'' # show_nat (nat (- i)) else show_nat (nat i))"

definition read_digits :: "string \<Rightarrow> nat" where
  "read_digits s = foldl (\<lambda>a c. 10 * a + (of_char c - 48)) 0 s"

lemma read_show_nat: "read_digits (show_nat n) = n"
proof (induction n rule: show_nat.induct)
  case (1 n)
  have d: "(of_char (char_of (48 + k) :: char) :: nat) = 48 + k" if "k < 10" for k
    using that by simp
  show ?case
  proof (cases "n < 10")
    case True
    then show ?thesis by (simp add: show_nat.simps [of n] read_digits_def d)
  next
    case False
    with 1 show ?thesis
      by (simp add: show_nat.simps [of n] read_digits_def d)
  qed
qed

lemma show_nat_inj: "show_nat a = show_nat b \<Longrightarrow> a = b"
  by (metis read_show_nat)

subsection \<open>Results that may be undefined\<close>

lemma bind_Some_iff [simp]:
  "(x \<bind> f = Some y) \<longleftrightarrow> (\<exists>a. x = Some a \<and> f a = Some y)"
  by (cases x) auto

lemma foldr_max_ge: "k \<in> set ks \<Longrightarrow> k \<le> foldr max ks (0 :: int)" "0 \<le> foldr max ks (0 :: int)"
  by (induction ks) (auto simp: le_max_iff_disj)

end
