(* ===== verification/Netlink_Wire.thy ===== *)
theory Netlink_Wire
  imports Prelude
begin

section \<open>The netlink wire format\<close>

text \<open>
  The part of Linux's \<^verbatim>\<open><linux/netlink.h>\<close> and \<^verbatim>\<open><linux/rtnetlink.h>\<close> that both netlink
  clients of the program use: the constants, the alignment macros, and the two kinds of
  frame, a message (\<^verbatim>\<open>struct nlmsghdr\<close>, 16 bytes: length, type, flags, sequence, port) and
  an attribute (\<^verbatim>\<open>struct rtattr\<close>, 4 bytes: length, type). They follow netlink(3), netlink(7)
  and rtnetlink(7). The encoders say what the kernel puts on the wire; the loops of the
  program that take it apart are in the theories of the two clients.
\<close>

subsection \<open>Constants\<close>

abbreviation (input) "AF_UNSPEC \<equiv> (0 :: nat)"
abbreviation (input) "AF_INET \<equiv> (2 :: nat)"
abbreviation (input) "AF_INET6 \<equiv> (10 :: nat)"
abbreviation (input) "AF_NETLINK \<equiv> (16 :: nat)"

abbreviation (input) "NLMSG_ERROR \<equiv> (2 :: nat)"
abbreviation (input) "NLMSG_DONE \<equiv> (3 :: nat)"
abbreviation (input) "RTM_NEWLINK \<equiv> (16 :: nat)"
abbreviation (input) "RTM_DELLINK \<equiv> (17 :: nat)"
abbreviation (input) "RTM_GETLINK \<equiv> (18 :: nat)"
abbreviation (input) "RTM_NEWROUTE \<equiv> (24 :: nat)"
abbreviation (input) "RTM_GETROUTE \<equiv> (26 :: nat)"
abbreviation (input) "NLM_F_REQUEST \<equiv> (0x1 :: nat)"
abbreviation (input) "NLM_F_DUMP \<equiv> (0x300 :: nat)"
abbreviation (input) "RTMGRP_LINK \<equiv> (1 :: nat)"
abbreviation (input) "IFLA_IFNAME \<equiv> (3 :: nat)"
abbreviation (input) "RTA_OIF \<equiv> (4 :: nat)"
abbreviation (input) "RTA_GATEWAY \<equiv> (5 :: nat)"

subsection \<open>Alignment\<close>

text \<open>\<open>NLMSG_ALIGN\<close> of a 32-bit length is computed in 32 bits; \<open>RTA_ALIGN\<close>'s argument has 16.\<close>

definition NLMSG_ALIGN :: "nat \<Rightarrow> nat" where
  "NLMSG_ALIGN n = ((n + 3) mod 2 ^ 32) div 4 * 4"

definition RTA_ALIGN :: "nat \<Rightarrow> nat" where
  "RTA_ALIGN n = (n + 3) div 4 * 4"

lemma NLMSG_ALIGN_aligned [layout_simps]: "4 dvd n \<Longrightarrow> n < 2 ^ 32 \<Longrightarrow> NLMSG_ALIGN n = n"
proof -
  assume "4 dvd n" "n < 2 ^ 32"
  then obtain k where n: "n = 4 * k" by (auto simp: dvd_def)
  with \<open>n < 2 ^ 32\<close> have "n + 3 < 2 ^ 32" by simp
  moreover have "(n + 3) div 4 = k" unfolding n by simp
  ultimately show ?thesis by (simp add: NLMSG_ALIGN_def n)
qed

lemma NLMSG_ALIGN_ge: "n < 2 ^ 32 - 3 \<Longrightarrow> n \<le> NLMSG_ALIGN n"
  by (simp add: NLMSG_ALIGN_def)

lemma RTA_ALIGN_ge: "n \<le> RTA_ALIGN n"
  by (simp add: RTA_ALIGN_def)

subsection \<open>Frames as the kernel writes them\<close>

type_synonym rtattr = "nat \<times> bytes" \<comment> \<open>type and payload\<close>
type_synonym nlmsg = "nat \<times> bytes" \<comment> \<open>type and body\<close>

definition pad4 :: "nat \<Rightarrow> bytes" where
  "pad4 n = replicate (RTA_ALIGN n - n) 0"

definition enc_attr :: "rtattr \<Rightarrow> bytes" where
  "enc_attr a = le16 (4 + length (snd a)) @ le16 (fst a) @ snd a @ pad4 (length (snd a))"

definition wf_attr :: "rtattr \<Rightarrow> bool" where
  "wf_attr a \<longleftrightarrow> fst a < 65536 \<and> 4 + length (snd a) < 65536"

text \<open>Flags, sequence number and port of a message are not looked at by the program.\<close>

definition enc_msg :: "nlmsg \<Rightarrow> bytes" where
  "enc_msg p = le32 (16 + length (snd p)) @ le16 (fst p) @ replicate 10 0 @ snd p"

text \<open>The kernel pads every attribute, so a message's length is a multiple of four.\<close>

definition wf_msg :: "nlmsg \<Rightarrow> bool" where
  "wf_msg p \<longleftrightarrow> fst p < 65536 \<and> 4 dvd length (snd p) \<and> length (snd p) \<le> 8176"

lemma length_pad4 [layout_simps]: "length (pad4 n) = RTA_ALIGN n - n"
  by (simp add: pad4_def)

lemma length_enc_attr [layout_simps]: "length (enc_attr a) = RTA_ALIGN (4 + length (snd a))"
proof -
  have "(4 + n + 3) div 4 = Suc ((n + 3) div 4)" for n :: nat by presburger
  then show ?thesis by (simp add: enc_attr_def layout_simps RTA_ALIGN_def)
qed

lemma length_enc_msg [layout_simps]: "length (enc_msg p) = 16 + length (snd p)"
  by (simp add: enc_msg_def layout_simps)

lemma holds_enc_attr:
  assumes "holds m off (enc_attr a)"
  shows "holds m off (le16 (4 + length (snd a)))" "holds m (off + 2) (le16 (fst a))"
    "holds m (off + 4) (snd a)"
  using assms by (simp_all add: enc_attr_def layout_simps numeral_eq_Suc)

lemma holds_enc_msg:
  assumes "holds m off (enc_msg p)"
  shows "holds m off (le32 (16 + length (snd p)))" "holds m (off + 4) (le16 (fst p))"
    "holds m (off + 16) (snd p)"
  using assms by (simp_all add: enc_msg_def layout_simps add_ac)

text \<open>What the two loops read at the head of a frame that lies in the array.\<close>

lemma enc_attr_header:
  assumes "wf_attr a" and "holds m off (enc_attr a)" and "off + length (enc_attr a) \<le> cap"
  shows "rd16 cap m off = Some (4 + length (snd a))" and "rd16 cap m (off + 2) = Some (fst a)"
    and "4 + length (snd a) \<le> length (enc_attr a)" and "holds m (off + 4) (snd a)"
proof -
  show le: "4 + length (snd a) \<le> length (enc_attr a)" by (simp add: layout_simps RTA_ALIGN_ge)
  show "rd16 cap m off = Some (4 + length (snd a))" "rd16 cap m (off + 2) = Some (fst a)"
    using holds_enc_attr [OF assms(2)] assms(1,3) le
    by (auto simp: wf_attr_def intro!: rd16_holds)
  show "holds m (off + 4) (snd a)" by (rule holds_enc_attr(3) [OF assms(2)])
qed

lemma enc_msg_header:
  assumes "fst p < 65536" and "length (enc_msg p) \<le> 8192" and "holds m off (enc_msg p)"
    and "off + length (enc_msg p) \<le> cap"
  shows "rd32 cap m off = Some (length (enc_msg p))" and "rd16 cap m (off + 4) = Some (fst p)"
proof -
  note h = holds_enc_msg [OF assms(3)]
  show "rd32 cap m off = Some (length (enc_msg p))"
    using h(1) assms(2,4) by (simp only: length_enc_msg) (intro rd32_holds; simp)
  show "rd16 cap m (off + 4) = Some (fst p)"
    using h(2) assms(1,4) by (intro rd16_holds) (simp_all add: layout_simps)
qed

lemma dvd_length_enc_attrs: "4 dvd length (concat (map enc_attr as))"
  by (induction as) (auto simp: layout_simps RTA_ALIGN_def)

subsection \<open>A loop over frames\<close>

text \<open>
  The abstract run over a list of frames: each either continues with a new state or ends
  the loop with a result; \<open>fin\<close> turns the last state into the result.
\<close>

fun run_frames :: "('f \<Rightarrow> 's \<Rightarrow> 's + 'r) \<Rightarrow> ('s \<Rightarrow> 'r) \<Rightarrow> 'f list \<Rightarrow> 's \<Rightarrow> 'r" where
  "run_frames step fin [] s = fin s"
| "run_frames step fin (f # fs) s =
     (case step f s of Inl s' \<Rightarrow> run_frames step fin fs s' | Inr r \<Rightarrow> r)"

text \<open>
  The interface every frame loop of the program provides: on an empty rest it finishes, and
  on a frame it takes that frame's step and goes on behind it. \<open>cap\<close> is the size of the
  array, \<open>off\<close> the position and \<open>len\<close> what the loop believes is left.
\<close>

locale frame_loop =
  fixes enc :: "'f \<Rightarrow> bytes"
    and wf :: "'f \<Rightarrow> bool"
    and cap :: nat
    and loop :: "buf \<Rightarrow> nat \<Rightarrow> int \<Rightarrow> 's \<Rightarrow> 'r"
    and step :: "'f \<Rightarrow> 's \<Rightarrow> 's + 'r"
    and fin :: "'s \<Rightarrow> 'r"
  assumes loop_end: "loop m off 0 s = fin s"
    and loop_frame: "wf f \<Longrightarrow> holds m off (enc f) \<Longrightarrow> off + length (enc f) \<le> cap \<Longrightarrow> cap \<le> 8192 \<Longrightarrow>
      int (length (enc f)) \<le> len \<Longrightarrow> len \<le> 8192 \<Longrightarrow>
      loop m off len s =
        (case step f s of
           Inl s' \<Rightarrow> loop m (off + length (enc f)) (len - int (length (enc f))) s'
         | Inr r \<Rightarrow> r)"
begin

lemma loop_frames:
  assumes "list_all wf fs" and "holds m off (concat (map enc fs))"
    and "off + length (concat (map enc fs)) \<le> cap" and "cap \<le> 8192"
  shows "loop m off (int (length (concat (map enc fs)))) s = run_frames step fin fs s"
  using assms
proof (induction fs arbitrary: off s)
  case Nil
  show ?case by (simp add: loop_end)
next
  case (Cons f fs)
  let ?rest = "concat (map enc fs)"
  have rest: "int (length (concat (map enc (f # fs)))) - int (length (enc f)) = int (length ?rest)"
    by simp
  have "loop m off (int (length (concat (map enc (f # fs))))) s =
      (case step f s of
         Inl s' \<Rightarrow> loop m (off + length (enc f)) (int (length ?rest)) s'
       | Inr r \<Rightarrow> r)"
    using Cons.prems loop_frame [of f m off "int (length (concat (map enc (f # fs))))" s]
    unfolding rest by simp
  then show ?case
    using Cons.prems Cons.IH by (simp split: sum.split)
qed

end

end
