(* ===== verification/Platform.thy ===== *)
theory Platform
  imports Netlink_Wire
begin

section \<open>The platform: system calls as a parameter\<close>

text \<open>
  Both programs act on the world through Linux system calls and the C library's network
  functions, whose behaviour is not the program's. They are the fields of one record over an
  arbitrary world \<open>'w\<close>: each call takes its arguments and the world, and gives its result and
  the world after it. Every definition of the model that performs a call takes the record, so
  a theorem holds for every platform, or for those with a named documented property.
\<close>

subsection \<open>Arguments and results\<close>

datatype sockaddr =
    Sockaddr_nl nat \<comment> \<open>\<open>nl_groups\<close>\<close>
  | Sockaddr_in bytes \<comment> \<open>\<open>sin_addr\<close>\<close>
  | Sockaddr_in6 bytes \<comment> \<open>\<open>sin6_addr\<close>\<close>

text \<open>An entry of \<open>getifaddrs\<close>; \<open>ifa_addr\<close> is \<open>None\<close> for the null pointer.\<close>

record ifaddr =
  ifa_name :: string
  ifa_addr :: "(nat \<times> bytes) option"

text \<open>An entry of \<open>getaddrinfo\<close>: \<open>ai_family\<close> and the address bytes of \<open>ai_addr\<close>.\<close>

record addrinfo =
  ai_family :: nat
  ai_addr :: bytes

text \<open>What a child process does after \<open>fork\<close>, in order.\<close>

datatype child_act =
    Sigprocmask_set "nat list"
  | Execlp string "string list"
  | Exit_now int

text \<open>\<open>poll\<close> on two descriptors: failed (with \<open>EINTR\<close> or not), or who has \<open>POLLIN\<close>.\<close>

datatype poll_result = Poll_failed bool | Poll_ready bool bool

text \<open>The exceptions the C++ code can let escape.\<close>

datatype cpp_exn = Length_error | Filesystem_error | Yaml_exception

abbreviation (input) "SIGINT \<equiv> (2 :: nat)"
abbreviation (input) "SIGTERM \<equiv> (15 :: nat)"
abbreviation (input) "SIGCHLD \<equiv> (17 :: nat)"
abbreviation (input) "SOCK_RAW \<equiv> (3 :: nat)"
abbreviation (input) "SOCK_CLOEXEC \<equiv> (0x80000 :: nat)"
abbreviation (input) "SFD_CLOEXEC \<equiv> (0x80000 :: nat)"
abbreviation (input) "SFD_NONBLOCK \<equiv> (0x800 :: nat)"
abbreviation (input) "NETLINK_ROUTE \<equiv> (0 :: nat)"
abbreviation (input) "IPPROTO_ICMP \<equiv> (1 :: nat)"
abbreviation (input) "IPPROTO_ICMPV6 \<equiv> (58 :: nat)"

subsection \<open>The system calls\<close>

text \<open>
  \<open>sys_recv\<close> (for \<open>recv\<close> and \<open>recvfrom\<close>) gives \<open>None\<close> for a negative result and otherwise the
  datagram; the callers cut it to the size of their array, as the kernel does. Its second
  argument is \<open>MSG_DONTWAIT\<close>. \<open>sys_getifaddrs\<close> and \<open>sys_getaddrinfo\<close> give \<open>None\<close> for an error
  code. \<open>sys_inet_pton\<close> and \<open>sys_inet_ntop\<close> take the address family; \<open>None\<close> is failure.
  \<open>sys_waitpid\<close>'s argument is \<open>WNOHANG\<close>.
\<close>

record 'w os =
  sys_socket :: "nat \<Rightarrow> nat \<Rightarrow> nat \<Rightarrow> 'w \<Rightarrow> int \<times> 'w"
  sys_close :: "int \<Rightarrow> 'w \<Rightarrow> 'w"
  sys_bind :: "int \<Rightarrow> sockaddr \<Rightarrow> 'w \<Rightarrow> int \<times> 'w"
  sys_bindtodevice :: "int \<Rightarrow> string \<Rightarrow> 'w \<Rightarrow> int \<times> 'w"
  sys_rcvtimeo :: "int \<Rightarrow> nat \<times> nat \<Rightarrow> 'w \<Rightarrow> int \<times> 'w"
  sys_sendto :: "int \<Rightarrow> bytes \<Rightarrow> sockaddr \<Rightarrow> 'w \<Rightarrow> int \<times> 'w"
  sys_send :: "int \<Rightarrow> bytes \<Rightarrow> 'w \<Rightarrow> int \<times> 'w"
  sys_recv :: "int \<Rightarrow> bool \<Rightarrow> 'w \<Rightarrow> bytes option \<times> 'w"
  sys_if_nametoindex :: "string \<Rightarrow> 'w \<Rightarrow> nat \<times> 'w"
  sys_getifaddrs :: "'w \<Rightarrow> ifaddr list option \<times> 'w"
  sys_getaddrinfo :: "string \<Rightarrow> 'w \<Rightarrow> addrinfo list option \<times> 'w"
  sys_inet_pton :: "nat \<Rightarrow> string \<Rightarrow> bytes option"
  sys_inet_ntop :: "nat \<Rightarrow> bytes \<Rightarrow> string option"
  sys_getpid :: "'w \<Rightarrow> nat"
  sys_fork :: "child_act list \<Rightarrow> 'w \<Rightarrow> int \<times> 'w"
  sys_kill :: "int \<Rightarrow> nat \<Rightarrow> 'w \<Rightarrow> int \<times> 'w"
  sys_waitpid :: "bool \<Rightarrow> 'w \<Rightarrow> int \<times> 'w"
  sys_sigprocmask_block :: "nat list \<Rightarrow> 'w \<Rightarrow> int \<times> 'w"
  sys_signalfd :: "int \<Rightarrow> nat list \<Rightarrow> nat \<Rightarrow> 'w \<Rightarrow> int \<times> 'w"
  sys_poll :: "int \<Rightarrow> int \<Rightarrow> 'w \<Rightarrow> poll_result \<times> 'w"
  sys_read_siginfo :: "int \<Rightarrow> 'w \<Rightarrow> nat option \<times> 'w"

text \<open>A call leaves a part of the world alone.\<close>

definition keeps :: "('w \<Rightarrow> 'k) \<Rightarrow> ('w \<Rightarrow> 'r \<times> 'w) \<Rightarrow> bool" where
  "keeps part call \<longleftrightarrow> (\<forall>w. part (snd (call w)) = part w)"

lemma keepsD: "keeps part call \<Longrightarrow> call w = (r, w') \<Longrightarrow> part w' = part w"
  unfolding keeps_def by (metis snd_conv)

lemma keeps_snd: "keeps part call \<Longrightarrow> part (snd (call w)) = part w"
  by (simp add: keeps_def)

subsection \<open>A platform to compute with\<close>

text \<open>
  A platform on which every call fails or finds nothing. The witnesses of the development
  update the fields they need.
\<close>

definition idle_os :: "'w os" where
  "idle_os = \<lparr>
     sys_socket = (\<lambda>d t p w. (-1, w)),
     sys_close = (\<lambda>fd w. w),
     sys_bind = (\<lambda>fd a w. (-1, w)),
     sys_bindtodevice = (\<lambda>fd i w. (-1, w)),
     sys_rcvtimeo = (\<lambda>fd tv w. (-1, w)),
     sys_sendto = (\<lambda>fd bs a w. (-1, w)),
     sys_send = (\<lambda>fd bs w. (-1, w)),
     sys_recv = (\<lambda>fd dw w. (None, w)),
     sys_if_nametoindex = (\<lambda>i w. (0, w)),
     sys_getifaddrs = (\<lambda>w. (None, w)),
     sys_getaddrinfo = (\<lambda>h w. (None, w)),
     sys_inet_pton = (\<lambda>f s. None),
     sys_inet_ntop = (\<lambda>f bs. None),
     sys_getpid = (\<lambda>w. 1),
     sys_fork = (\<lambda>c w. (-1, w)),
     sys_kill = (\<lambda>p s w. (-1, w)),
     sys_waitpid = (\<lambda>b w. (-1, w)),
     sys_sigprocmask_block = (\<lambda>m w. (-1, w)),
     sys_signalfd = (\<lambda>fd m fl w. (-1, w)),
     sys_poll = (\<lambda>a b w. (Poll_failed False, w)),
     sys_read_siginfo = (\<lambda>fd w. (None, w)) \<rparr>"

lemma idle_os_simps [simp]:
  "sys_socket idle_os d t p w = (-1, w)"
  "sys_recv idle_os fd dw w = (None, w)"
  "sys_fork idle_os c w = (-1, w)"
  "sys_kill idle_os pid sg w = (-1, w)"
  "sys_waitpid idle_os b w = (-1, w)"
  "sys_close idle_os fd w = w"
  "sys_getifaddrs idle_os w = (None, w)"
  "sys_getaddrinfo idle_os h w = (None, w)"
  "sys_if_nametoindex idle_os i w = (0, w)"
  "sys_inet_pton idle_os f s = None"
  "sys_inet_ntop idle_os f bs = None"
  "sys_bindtodevice idle_os fd i w = (-1, w)"
  "sys_rcvtimeo idle_os fd tv w = (-1, w)"
  "sys_sendto idle_os fd bs a w = (-1, w)"
  "sys_send idle_os fd bs w = (-1, w)"
  by (simp_all add: idle_os_def)

text \<open>The array a datagram is received into: its first \<open>cap\<close> bytes, over the old content.\<close>

definition received :: "nat \<Rightarrow> bytes \<Rightarrow> buf \<Rightarrow> nat \<times> buf" where
  "received cap bs m = (length (take cap bs), store (take cap bs) m)"

lemma received_simps [simp]:
  "length bs \<le> cap \<Longrightarrow> received cap bs m = (length bs, store bs m)"
  by (simp add: received_def)

lemma fst_received_le: "fst (received cap bs m) \<le> cap"
  by (simp add: received_def)

end
