(* ===== verification/Config_File.thy ===== *)
theory Config_File
  imports Platform
begin

section \<open>The configuration file (config.cpp)\<close>

text \<open>
  \<open>ConfigFile\<close>: where the configuration lives, and the creation of a documented default. The
  environment is a map from names to values; the file operations are a parameter, over a world.
\<close>

subsection \<open>Paths\<close>

text \<open>
  \<^verbatim>\<open>std::filesystem::path::operator/\<close> with a relative right-hand side, and \<open>parent_path\<close>, of
  POSIX paths.
\<close>

definition path_append :: "string \<Rightarrow> string \<Rightarrow> string" where
  "path_append p s =
     (if p = [] \<or> last p = CHR ''/'' then p @ s else p @ CHR ''/'' # s)"

definition parent_path :: "string \<Rightarrow> string" where
  "parent_path p =
     (let d = rev (dropWhile (\<lambda>c. c \<noteq> CHR ''/'') (rev p))
      in if \<forall>c \<in> set d. c = CHR ''/'' then d
         else rev (dropWhile (\<lambda>c. c = CHR ''/'') (rev d)))"

definition homeConfigDir :: "(string \<rightharpoonup> string) \<Rightarrow> string" where
  "homeConfigDir env =
     path_append (case env ''HOME'' of Some home \<Rightarrow> home | None \<Rightarrow> ''.'') ''.config''"

definition resolvePath :: "(string \<rightharpoonup> string) \<Rightarrow> string" where
  "resolvePath env =
     (let base = (case env ''XDG_CONFIG_HOME'' of
                    Some xdg \<Rightarrow> if xdg \<noteq> [] then xdg else homeConfigDir env
                  | None \<Rightarrow> homeConfigDir env)
      in path_append (path_append base ''conwatch'') ''config.yaml'')"

subsection \<open>The default document\<close>

text \<open>\<open>DefaultConfigYaml\<close>, line by line.\<close>

definition default_lines :: "string list" where
  "default_lines =
    [''# conwatch configuration'',
     ''# Auto-generated with default values on first run. Edit and save --'',
     ''# the watcher re-reads this file on next start (no live-reload).'',
     '''',
     ''# Default ping target for any monitored interface without its own'',
     ''# \"target\" under interfaces: below.'',
     ''default_target: \"1.1.1.1\"'',
     '''',
     ''# Optional default IPv6 ping target, used alongside default_target so'',
     ''# interfaces without their own target/target6 override get both an'',
     ''# IPv4 and IPv6 check. Leave unset to run IPv4-only by default (a'',
     ''# hostname default_target that resolves to both A/AAAA records also'',
     ''# enables both protocols, without needing this key).'',
     ''# default_target6: \"2606:4700:4700::1111\"'',
     '''',
     ''# Exactly one of include / exclude should be populated; leave the'',
     ''# other empty ([]). Populating both with real patterns is a startup'',
     ''# error (see README) rather than a silently-guessed precedence.'',
     '''',
     ''# If non-empty, ONLY interfaces matching one of these glob patterns'',
     ''# are monitored (allow-list mode).'',
     ''include: []'',
     '''',
     ''# Interfaces matching any of these glob patterns are never monitored.'',
     ''# Defaults cover loopback and common virtual/container interfaces.'',
     ''exclude:'',
     ''  - \"lo\"'',
     ''  - \"docker*\"'',
     ''  - \"podman*\"'',
     ''  - \"virbr*\"'',
     ''  - \"veth*\"'',
     ''  - \"br-*\"'',
     '''',
     ''# Per-interface overrides, keyed by exact interface name. Optional.'',
     ''#'',
     ''# gateway_ip_override4/6 override how the \"blue\" (gateway-reachable)'',
     ''# check sources its gateway for that protocol, instead of resolving the'',
     ''# interface's kernel default route: a literal IP pins the gateway to'',
     ''# ping, and \"none\" disables the check entirely (severity goes straight'',
     ''# from yellow to red past the loss threshold, never blue). Useful for a'',
     ''# tunnel interface (e.g. WireGuard) that routes a private subnet without'',
     ''# carrying a default route.'',
     ''#'',
     ''# Example:'',
     ''# interfaces:'',
     ''#   wlan0:'',
     ''#     label: \"WiFi\"'',
     ''#   wg0:'',
     ''#     label: \"VPN\"'',
     ''#     target: \"10.10.0.1\"'',
     ''#     target6: \"fd00::1\"'',
     ''#     gateway_ip_override4: \"10.10.0.1\"'',
     ''#     gateway_ip_override6: \"none\"'',
     ''interfaces: {}'']"

definition DefaultConfigYaml :: string where
  "DefaultConfigYaml = concat (map (\<lambda>l. l @ [CHR 0x0A]) default_lines)"

subsection \<open>Creating the file\<close>

text \<open>
  \<open>fs_exists\<close> gives \<open>None\<close> where the library function throws; the boolean of the others is false
  where they throw (\<open>create_directories\<close>, \<open>rename\<close>) or leave the stream unopened. A write of a
  stream's content goes to the disk in parts: \<open>fs_write\<close> gives the worlds it goes through, up
  to the closing of the file.
\<close>

record 'w fsys =
  fs_exists :: "string \<Rightarrow> 'w \<Rightarrow> bool option"
  fs_create_directories :: "string \<Rightarrow> 'w \<Rightarrow> bool \<times> 'w"
  fs_open_trunc :: "string \<Rightarrow> 'w \<Rightarrow> bool \<times> 'w"
  fs_write :: "string \<Rightarrow> string \<Rightarrow> 'w \<Rightarrow> 'w list"
  fs_rename :: "string \<Rightarrow> string \<Rightarrow> 'w \<Rightarrow> bool \<times> 'w"

text \<open>
  The worlds the program goes through are part of the result: a crash leaves one of them. An
  unopened stream ignores what is written to it; its state is not looked at before the rename.
\<close>

definition tmp_path :: "string \<Rightarrow> string" where
  "tmp_path p = p @ ''.tmp''"

definition writeDefaultConfig :: "'w fsys \<Rightarrow> string \<Rightarrow> 'w \<Rightarrow> bool \<times> 'w list" where
  "writeDefaultConfig fsys p w =
     (let tmp = tmp_path p;
          (opened, w1) = fs_open_trunc fsys tmp w;
          ws = (if opened then fs_write fsys tmp DefaultConfigYaml w1 else []);
          (renamed, w3) = fs_rename fsys tmp p (last (w1 # ws))
      in (renamed, w1 # ws @ [w3]))"

definition ensureExists :: "'w fsys \<Rightarrow> string \<Rightarrow> 'w \<Rightarrow> (cpp_exn + bool) \<times> 'w list" where
  "ensureExists fsys path w =
     (case fs_exists fsys path w of
        None \<Rightarrow> (Inl Filesystem_error, [])
      | Some True \<Rightarrow> (Inr False, [])
      | Some False \<Rightarrow>
          (let (ok, w1) = fs_create_directories fsys (parent_path path) w
           in if \<not> ok then (Inl Filesystem_error, [w1])
              else let (renamed, ws) = writeDefaultConfig fsys path w1
                   in (if renamed then Inr True else Inl Filesystem_error, w1 # ws)))"

subsection \<open>The file system's side\<close>

text \<open>
  \<open>contents w p\<close> is what the file at \<open>p\<close> holds, if there is one. Opening truncates, a write
  touches no other file and has at any time put a prefix on the disk, and a rename replaces its
  target in one step or fails without effect (rename(2)).
\<close>

definition file_laws :: "'w fsys \<Rightarrow> ('w \<Rightarrow> string \<rightharpoonup> string) \<Rightarrow> bool" where
  "file_laws fsys contents \<longleftrightarrow>
     (\<forall>p w. fs_exists fsys p w = Some False \<longrightarrow> contents w p = None) \<and>
     (\<forall>p w ok w'. fs_create_directories fsys p w = (ok, w') \<longrightarrow> contents w' = contents w) \<and>
     (\<forall>p w ok w'. fs_open_trunc fsys p w = (ok, w') \<longrightarrow>
        contents w' = (if ok then (contents w)(p \<mapsto> []) else contents w)) \<and>
     (\<forall>p s w w'. contents w p = Some [] \<longrightarrow> w' \<in> set (fs_write fsys p s w) \<longrightarrow>
        (\<exists>k. contents w' = (contents w)(p \<mapsto> take k s))) \<and>
     (\<forall>p q w ok w'. fs_rename fsys p q w = (ok, w') \<longrightarrow> p \<noteq> q \<longrightarrow>
        contents w' = (if ok then (contents w)(q := contents w p, p := None) else contents w))"

lemma file_laws_D:
  assumes "file_laws fsys contents"
  shows "fs_exists fsys p w = Some False \<Longrightarrow> contents w p = None"
    and "fs_create_directories fsys p w = (ok, w') \<Longrightarrow> contents w' = contents w"
    and "fs_open_trunc fsys p w = (ok, w') \<Longrightarrow>
      contents w' = (if ok then (contents w)(p \<mapsto> []) else contents w)"
    and "contents w p = Some [] \<Longrightarrow> w' \<in> set (fs_write fsys p s w) \<Longrightarrow>
      \<exists>k. contents w' = (contents w)(p \<mapsto> take k s)"
    and "fs_rename fsys p q w = (ok, w') \<Longrightarrow> p \<noteq> q \<Longrightarrow>
      contents w' = (if ok then (contents w)(q := contents w p, p := None) else contents w)"
  using assms unfolding file_laws_def by blast+

text \<open>The disk has room: the document that has been written is whole.\<close>

definition writes_complete :: "'w fsys \<Rightarrow> ('w \<Rightarrow> string \<rightharpoonup> string) \<Rightarrow> bool" where
  "writes_complete fsys contents \<longleftrightarrow>
     (\<forall>p w ok w1. fs_open_trunc fsys p w = (ok, w1) \<longrightarrow>
        ok \<and> contents (last (w1 # fs_write fsys p DefaultConfigYaml w1)) p = Some DefaultConfigYaml)"

lemma tmp_neq [simp]: "tmp_path p \<noteq> p" "p \<noteq> tmp_path p"
  by (simp_all add: tmp_path_def)

lemma last_Cons_mem: "last (x # xs) = x \<or> last (x # xs) \<in> set xs"
  by auto

text \<open>
  What every world of the creation has in common: all files but the temporary one are as
  before, until the last step replaces the target by it.
\<close>

lemma writeDefaultConfig_trace:
  assumes laws: "file_laws fsys contents" and run: "writeDefaultConfig fsys p w = (renamed, ws)"
  shows "\<exists>ws' w2 w3. ws = ws' @ [w3] \<and>
    (\<forall>w' \<in> set ws'. \<forall>q. q \<noteq> tmp_path p \<longrightarrow> contents w' q = contents w q) \<and>
    (\<forall>q. q \<noteq> tmp_path p \<longrightarrow> contents w2 q = contents w q) \<and>
    contents w3 =
      (if renamed then (contents w2)(p := contents w2 (tmp_path p), tmp_path p := None) else contents w2) \<and>
    (\<exists>ok w1. fs_open_trunc fsys (tmp_path p) w = (ok, w1) \<and>
      (ok \<longrightarrow> w2 = last (w1 # fs_write fsys (tmp_path p) DefaultConfigYaml w1)))"
proof -
  let ?tmp = "tmp_path p"
  obtain ok w1 where o: "fs_open_trunc fsys ?tmp w = (ok, w1)" by fastforce
  define vs where "vs = (if ok then fs_write fsys ?tmp DefaultConfigYaml w1 else [])"
  define w2 where "w2 = last (w1 # vs)"
  obtain w3 where r: "fs_rename fsys ?tmp p w2 = (renamed, w3)" and ws: "ws = (w1 # vs) @ [w3]"
    using run o by (auto simp: writeDefaultConfig_def vs_def w2_def Let_def split: prod.splits)
  note c1 = file_laws_D(3) [OF laws o]
  have frame: "contents w' q = contents w q" if "w' \<in> set (w1 # vs)" and "q \<noteq> ?tmp" for w' q
  proof (cases "w' = w1")
    case True
    with c1 that(2) show ?thesis by simp
  next
    case False
    with that(1) have v: "w' \<in> set (fs_write fsys ?tmp DefaultConfigYaml w1)" and ok
      by (auto simp: vs_def split: if_splits)
    with c1 have "contents w1 ?tmp = Some []" by simp
    from file_laws_D(4) [OF laws this v] c1 \<open>ok\<close> that(2) show ?thesis by auto
  qed
  have "w2 \<in> set (w1 # vs)" unfolding w2_def by (rule last_in_set) simp
  with frame have "contents w2 q = contents w q" if "q \<noteq> ?tmp" for q using that by blast
  moreover have "ok \<longrightarrow> w2 = last (w1 # fs_write fsys ?tmp DefaultConfigYaml w1)"
    by (auto simp only: w2_def vs_def if_True)
  ultimately show ?thesis using ws frame file_laws_D(5) [OF laws r tmp_neq(1)] o by blast
qed

lemma ensureExists_trace:
  assumes "file_laws fsys contents" and "writes_complete fsys contents"
    and "ensureExists fsys path w = (r, ws)"
  shows "(\<forall>w' \<in> set ws. contents w' path \<in> {contents w path, Some DefaultConfigYaml} \<and>
      (\<forall>q. q \<noteq> path \<longrightarrow> q \<noteq> tmp_path path \<longrightarrow> contents w' q = contents w q)) \<and>
    (r = Inr True \<longrightarrow> contents w path = None \<and> contents (last ws) path = Some DefaultConfigYaml)"
proof (cases "fs_exists fsys path w = Some False")
  case absent: True
  obtain ok w1 where d: "fs_create_directories fsys (parent_path path) w = (ok, w1)" by fastforce
  note c1 = file_laws_D(2) [OF assms(1) d]
  show ?thesis
  proof (cases ok)
    case True
    obtain renamed vs where v: "writeDefaultConfig fsys path w1 = (renamed, vs)" by fastforce
    from writeDefaultConfig_trace [OF assms(1) v] obtain vs' w2 w3 where
      vs: "vs = vs' @ [w3]"
      and frame: "\<forall>w' \<in> set vs'. \<forall>q. q \<noteq> tmp_path path \<longrightarrow> contents w' q = contents w1 q"
      and frame2: "\<forall>q. q \<noteq> tmp_path path \<longrightarrow> contents w2 q = contents w1 q"
      and c3: "contents w3 = (if renamed then (contents w2)(path := contents w2 (tmp_path path),
        tmp_path path := None) else contents w2)"
      and w2: "\<exists>ok v1. fs_open_trunc fsys (tmp_path path) w1 = (ok, v1) \<and>
        (ok \<longrightarrow> w2 = last (v1 # fs_write fsys (tmp_path path) DefaultConfigYaml v1))"
      by blast
    have whole: "contents w2 (tmp_path path) = Some DefaultConfigYaml"
      using w2 assms(2) unfolding writes_complete_def by blast
    from assms(3) absent d True v have "r = (if renamed then Inr True else Inl Filesystem_error)"
      and "ws = w1 # vs' @ [w3]" by (auto simp: ensureExists_def vs)
    with frame frame2 c3 whole c1 file_laws_D(1) [OF assms(1) absent] show ?thesis by auto
  next
    case False
    with assms(3) absent d c1 show ?thesis by (auto simp: ensureExists_def)
  qed
next
  case False
  with assms(3) show ?thesis by (auto simp: ensureExists_def split: option.splits bool.splits)
qed

subsection \<open>Properties\<close>

text \<open>C26: As long as writes are complete, the file at the configuration path is at every moment
  of its creation, and so after a crash at any point, either absent as before or the whole
  default document; no other file but the temporary one changes; and when a new file is
  reported, it is there.\<close>

theorem ensureExists_never_partial:
  assumes "file_laws fsys contents" and "writes_complete fsys contents"
    and "ensureExists fsys path w = (r, ws)"
  shows "(\<forall>w' \<in> set ws. contents w' path \<in> {contents w path, Some DefaultConfigYaml} \<and>
      (\<forall>q. q \<noteq> path \<longrightarrow> q \<noteq> tmp_path path \<longrightarrow> contents w' q = contents w q)) \<and>
    (r = Inr True \<longrightarrow> contents w path = None \<and> contents (last ws) path = Some DefaultConfigYaml)"
  using assms by (rule ensureExists_trace)

text \<open>A file system in memory, with room for \<open>room\<close> characters in each file.\<close>

definition map_fs :: "nat \<Rightarrow> (string \<rightharpoonup> string) fsys" where
  "map_fs room = \<lparr>
     fs_exists = (\<lambda>p w. Some (w p \<noteq> None)),
     fs_create_directories = (\<lambda>p w. (True, w)),
     fs_open_trunc = (\<lambda>p w. (True, w(p \<mapsto> []))),
     fs_write = (\<lambda>p s w. [w(p \<mapsto> take room s)]),
     fs_rename = (\<lambda>p q w. if w p = None then (False, w) else (True, w(q := w p, p := None)))\<rparr>"

lemma map_fs_laws: "file_laws (map_fs room) (\<lambda>w. w)"
  unfolding file_laws_def map_fs_def
  by (auto simp: fun_eq_iff split: if_splits)

theorem ensureExists_never_partial_witness:
  "fst (ensureExists (map_fs (length DefaultConfigYaml)) ''/c/config.yaml'' Map.empty) = Inr True \<and>
   last (snd (ensureExists (map_fs (length DefaultConfigYaml)) ''/c/config.yaml'' Map.empty)) ''/c/config.yaml''
     = Some DefaultConfigYaml"
proof -
  let ?fs = "map_fs (length DefaultConfigYaml)"
  have c: "writes_complete ?fs (\<lambda>w. w)" by (auto simp: writes_complete_def map_fs_def)
  obtain r ws where run: "ensureExists ?fs ''/c/config.yaml'' Map.empty = (r, ws)" by fastforce
  then have "r = Inr True"
    by (simp add: ensureExists_def writeDefaultConfig_def map_fs_def Let_def split: if_splits)
  with ensureExists_never_partial [OF map_fs_laws c run] run show ?thesis by simp
qed

text \<open>C39: The creation does not look at whether the document could be written: when the disk has
  room for only the first \<open>k\<close> characters, the truncated file is moved into place and reported
  as created, although the temporary file is there to avoid partial writes.\<close>

theorem short_write_installed:
  assumes "file_laws fsys contents" and "fs_exists fsys path w = Some False"
    and "fs_create_directories fsys (parent_path path) w = (True, w1)"
    and "fs_open_trunc fsys (tmp_path path) w1 = (True, w2)"
    and "contents (last (w2 # fs_write fsys (tmp_path path) DefaultConfigYaml w2)) (tmp_path path) =
      Some (take k DefaultConfigYaml)"
    and "fst (fs_rename fsys (tmp_path path) path
      (last (w2 # fs_write fsys (tmp_path path) DefaultConfigYaml w2)))"
  shows "fst (ensureExists fsys path w) = Inr True \<and>
    contents (last (snd (ensureExists fsys path w))) path = Some (take k DefaultConfigYaml)"
proof -
  obtain w4 where r: "fs_rename fsys (tmp_path path) path
      (last (w2 # fs_write fsys (tmp_path path) DefaultConfigYaml w2)) = (True, w4)"
    using assms(6) by (cases "fs_rename fsys (tmp_path path) path
      (last (w2 # fs_write fsys (tmp_path path) DefaultConfigYaml w2))") simp
  from file_laws_D(5) [OF assms(1) r] assms(5)
  have "contents w4 path = Some (take k DefaultConfigYaml)" by simp
  moreover have "writeDefaultConfig fsys path w1 =
      (True, w2 # fs_write fsys (tmp_path path) DefaultConfigYaml w2 @ [w4])"
    by (simp only: writeDefaultConfig_def Let_def assms(4) prod.case if_True r)
  ultimately show ?thesis by (simp add: ensureExists_def assms(2,3) Let_def)
qed

theorem short_write_installed_witness:
  "fst (ensureExists (map_fs 5) ''/c/config.yaml'' Map.empty) = Inr True \<and>
   last (snd (ensureExists (map_fs 5) ''/c/config.yaml'' Map.empty)) ''/c/config.yaml'' = Some ''# con''"
proof -
  have d: "take 5 DefaultConfigYaml = ''# con''"
    by (simp add: DefaultConfigYaml_def default_lines_def)
  show ?thesis
    using short_write_installed [OF map_fs_laws [of 5], where path = "''/c/config.yaml''" and
        w = Map.empty and k = 5, unfolded d]
    by (simp add: map_fs_def d)
qed

lemma parent_path_append:
  "parent_path (path_append (path_append base ''conwatch'') ''config.yaml'') = path_append base ''conwatch''"
  by (simp add: parent_path_def path_append_def)

text \<open>The configuration is at \<open>conwatch/config.yaml\<close> below \<open>XDG_CONFIG_HOME\<close> when that is set
  and not empty, else below \<open>.config\<close> in \<open>HOME\<close>, else below \<open>.config\<close> in the working directory;
  the directory created for it is the one it lies in.\<close>

lemma config_location:
  "resolvePath env =
     path_append (parent_path (resolvePath env)) ''config.yaml'' \<and>
   parent_path (resolvePath env) =
     path_append
       (case env ''XDG_CONFIG_HOME'' of
          Some (c # cs) \<Rightarrow> c # cs
        | _ \<Rightarrow> (case env ''HOME'' of Some home \<Rightarrow> path_append home ''.config'' | None \<Rightarrow> ''./.config''))
       ''conwatch''"
  by (auto simp: resolvePath_def homeConfigDir_def parent_path_append Let_def path_append_def [of "[_]"]
      split: option.split list.split)

end
