(* ===== verification/Netlink_Watcher.thy ===== *)
theory Netlink_Watcher
  imports Platform
begin

section \<open>The link-state listener (netlink.cpp)\<close>

text \<open>
  \<open>NetlinkWatcher\<close>: opens a \<open>NETLINK_ROUTE\<close> socket subscribed to link events, asks for a dump
  of the present links, and turns every batch of messages into calls of two callbacks. The
  callbacks and the state they change are parameters here, as in the code.
\<close>

subsection \<open>Opening the socket\<close>

text \<open>The class's one field is \<open>m_fd\<close>; a constructed object has \<open>-1\<close>.\<close>

record netlink_watcher =
  nl_fd :: int

definition new_netlink_watcher :: netlink_watcher where
  "new_netlink_watcher = \<lparr>nl_fd = -1\<rparr>"

definition nl_fd_of :: "netlink_watcher \<Rightarrow> int" where
  "nl_fd_of nw = nl_fd nw"

definition nl_destroy :: "'w os \<Rightarrow> netlink_watcher \<Rightarrow> 'w \<Rightarrow> 'w" where
  "nl_destroy os nw w = (if 0 \<le> nl_fd nw then sys_close os (nl_fd nw) w else w)"

text \<open>The request: a header and a \<open>struct ifinfomsg\<close> of zeroes, 32 bytes.\<close>

definition dump_request :: bytes where
  "dump_request =
     le32 32 @ le16 RTM_GETLINK @ le16 (NLM_F_REQUEST OR NLM_F_DUMP) @ le32 1 @ le32 0
     @ [of_nat AF_UNSPEC] @ replicate 15 0"

definition requestDump :: "'w os \<Rightarrow> netlink_watcher \<Rightarrow> 'w \<Rightarrow> 'w" where
  "requestDump os nw w = snd (sys_sendto os (nl_fd nw) dump_request (Sockaddr_nl 0) w)"

definition nl_open :: "'w os \<Rightarrow> netlink_watcher \<Rightarrow> 'w \<Rightarrow> bool \<times> netlink_watcher \<times> 'w" where
  "nl_open os nw w =
     (let (fd, w) = sys_socket os AF_NETLINK (SOCK_RAW OR SOCK_CLOEXEC) NETLINK_ROUTE w;
          nw = nw\<lparr>nl_fd := fd\<rparr>
      in if fd < 0 then (False, nw, w)
         else let (rc, w) = sys_bind os fd (Sockaddr_nl RTMGRP_LINK) w
              in if rc < 0 then (False, nw\<lparr>nl_fd := -1\<rparr>, sys_close os fd w)
                 else (True, nw, requestDump os nw w))"

subsection \<open>One message\<close>

text \<open>\<open>IFF_UP\<close>, \<open>IFF_RUNNING\<close> and \<open>IFF_LOWER_UP\<close>, all three.\<close>

definition IFF_UP :: "32 word" where "IFF_UP = 0x1"
definition IFF_RUNNING :: "32 word" where "IFF_RUNNING = 0x40"
definition IFF_LOWER_UP :: "32 word" where "IFF_LOWER_UP = 0x10000"

definition isOperationallyUp :: "32 word \<Rightarrow> bool" where
  "isOperationallyUp flags \<longleftrightarrow>
     flags AND IFF_UP \<noteq> 0 \<and> flags AND IFF_RUNNING \<noteq> 0 \<and> flags AND IFF_LOWER_UP \<noteq> 0"

text \<open>
  The attribute loop of \<open>extractIfName\<close>. \<open>RTA_OK\<close> compares signed, so a negative rest ends
  the loop. The name is all of the payload but its last byte, the terminating zero; a payload
  of no bytes makes the count \<open>SIZE_MAX\<close>, for which \<open>std::string::assign\<close> throws.
\<close>

definition assign_name :: "nat \<Rightarrow> buf \<Rightarrow> nat \<Rightarrow> nat \<Rightarrow> (cpp_exn + string) option" where
  "assign_name cap m at payload =
     (if payload = 0 then Some (Inl Length_error)
      else do { bs \<leftarrow> rd_bytes cap m at (payload - 1); Some (Inr (string_of bs)) })"

function ifname_loop :: "nat \<Rightarrow> buf \<Rightarrow> nat \<Rightarrow> int \<Rightarrow> (cpp_exn + string) option" where
  "ifname_loop cap m rta attrLen =
     (if attrLen < 4 then Some (Inr [])
      else do {
        rlen \<leftarrow> rd16 cap m rta;
        if rlen < 4 \<or> attrLen < int rlen then Some (Inr [])
        else do {
          ty \<leftarrow> rd16 cap m (rta + 2);
          if ty = IFLA_IFNAME then assign_name cap m (rta + 4) (rlen - 4)
          else ifname_loop cap m (rta + RTA_ALIGN rlen) (attrLen - int (RTA_ALIGN rlen))
        }
      })"
  by pat_completeness auto
termination
  by (relation "measure (\<lambda>(cap, m, rta, attrLen). nat attrLen)")
    (auto simp: RTA_ALIGN_def)

declare ifname_loop.simps [simp del]

text \<open>
  \<open>IFLA_PAYLOAD\<close>: what is left of the message behind its header and \<open>struct ifinfomsg\<close>, 32
  bytes together, converted to \<open>int\<close>.
\<close>

definition IFLA_PAYLOAD :: "nat \<Rightarrow> int" where
  "IFLA_PAYLOAD nlmsg_len = to_i32 (of_i32 (int nlmsg_len - 32))"

definition extractIfName :: "nat \<Rightarrow> buf \<Rightarrow> nat \<Rightarrow> nat \<Rightarrow> (cpp_exn + string) option" where
  "extractIfName cap m nlh nlmsg_len = ifname_loop cap m (nlh + 32) (IFLA_PAYLOAD nlmsg_len)"

text \<open>The body of the message loop, for the message at \<open>nlh\<close>.\<close>

definition handle_one ::
  "nat \<Rightarrow> buf \<Rightarrow> (int \<Rightarrow> string \<Rightarrow> bool \<Rightarrow> 's \<Rightarrow> 's) \<Rightarrow> (int \<Rightarrow> 's \<Rightarrow> 's) \<Rightarrow> nat \<Rightarrow> nat \<Rightarrow> nat \<Rightarrow> 's
   \<Rightarrow> (cpp_exn \<times> 's + 's) option" where
  "handle_one cap m onChange onRemoved nlh nlmsg_len ty s =
     (if ty = NLMSG_DONE \<or> ty = NLMSG_ERROR then Some (Inr s)
      else if ty \<noteq> RTM_NEWLINK \<and> ty \<noteq> RTM_DELLINK then Some (Inr s)
      else do {
        name \<leftarrow> extractIfName cap m nlh nlmsg_len;
        case name of
          Inl e \<Rightarrow> Some (Inl (e, s))
        | Inr name \<Rightarrow> do {
            index \<leftarrow> rd32 cap m (nlh + 20);
            if ty = RTM_DELLINK then Some (Inr (onRemoved (to_i32 index) s))
            else if name = [] then Some (Inr s)
            else do {
              flags \<leftarrow> rd32 cap m (nlh + 24);
              Some (Inr (onChange (to_i32 index) name (isOperationallyUp (of_nat flags)) s))
            }
          }
      })"

subsection \<open>The message loop\<close>

text \<open>
  \<open>len\<close> is a \<open>size_t\<close>: \<open>NLMSG_NEXT\<close> takes the aligned length off it modulo \<open>2 ^ 64\<close>. \<open>None\<close> is a
  read outside the array or a loop that does not end; \<open>Inl\<close> an escaping exception, with what the
  callbacks have done by then.
\<close>

partial_function (option) handleMessage ::
  "nat \<Rightarrow> buf \<Rightarrow> (int \<Rightarrow> string \<Rightarrow> bool \<Rightarrow> 's \<Rightarrow> 's) \<Rightarrow> (int \<Rightarrow> 's \<Rightarrow> 's) \<Rightarrow> nat \<Rightarrow> nat \<Rightarrow> 's
   \<Rightarrow> (cpp_exn \<times> 's + 's) option" where
  "handleMessage cap m onChange onRemoved nlh len s =
     (if len < 16 then Some (Inr s)
      else do {
        nlmsg_len \<leftarrow> rd32 cap m nlh;
        if nlmsg_len < 16 \<or> len < nlmsg_len then Some (Inr s)
        else do {
          ty \<leftarrow> rd16 cap m (nlh + 4);
          r \<leftarrow> handle_one cap m onChange onRemoved nlh nlmsg_len ty s;
          case r of
            Inl e \<Rightarrow> Some (Inl e)
          | Inr s' \<Rightarrow>
              handleMessage cap m onChange onRemoved (nlh + NLMSG_ALIGN nlmsg_len)
                ((len + 2 ^ 64 - NLMSG_ALIGN nlmsg_len) mod 2 ^ 64) s'
        }
      })"

text \<open>
  \<open>processPendingMessages\<close>: receive without waiting until nothing (or an error) comes back.
  The array is the loop's own \<open>char buf[8192]\<close>; what it holds at the start is arbitrary.
\<close>

partial_function (option) processPendingMessages ::
  "'w os \<Rightarrow> int \<Rightarrow> (int \<Rightarrow> string \<Rightarrow> bool \<Rightarrow> 's \<times> 'w \<Rightarrow> 's \<times> 'w) \<Rightarrow> (int \<Rightarrow> 's \<times> 'w \<Rightarrow> 's \<times> 'w)
   \<Rightarrow> buf \<Rightarrow> 's \<times> 'w \<Rightarrow> (cpp_exn \<times> 's \<times> 'w + 's \<times> 'w) option" where
  "processPendingMessages os fd onChange onRemoved m sw =
     (case sys_recv os fd True (snd sw) of
        (None, w) \<Rightarrow> Some (Inr (fst sw, w))
      | (Some bs, w) \<Rightarrow>
          if bs = [] then Some (Inr (fst sw, w))
          else do {
            let (n, m) = received 8192 bs m;
            r \<leftarrow> handleMessage 8192 m onChange onRemoved 0 n (fst sw, w);
            case r of
              Inl e \<Rightarrow> Some (Inl e)
            | Inr sw' \<Rightarrow> processPendingMessages os fd onChange onRemoved m sw'
          })"


subsection \<open>Batches as the kernel sends them\<close>

text \<open>
  A link message carries an interface index, flags and attributes; any other message is
  passed over.
\<close>

datatype link_frame =
    Link_frame (removal: bool) (index: int) (link_flags: nat) (attrs: "rtattr list")
  | Other_frame nat bytes

definition link_body :: "int \<Rightarrow> nat \<Rightarrow> rtattr list \<Rightarrow> bytes" where
  "link_body i fl as =
     replicate 4 0 @ le32 (of_i32 i) @ le32 fl @ replicate 4 0 @ concat (map enc_attr as)"

fun enc_link :: "link_frame \<Rightarrow> bytes" where
  "enc_link (Link_frame del i fl as) =
     enc_msg (if del then RTM_DELLINK else RTM_NEWLINK, link_body i fl as)"
| "enc_link (Other_frame ty body) = enc_msg (ty, body)"

fun wf_link :: "link_frame \<Rightarrow> bool" where
  "wf_link (Link_frame del i fl as) \<longleftrightarrow>
     - (2 ^ 31) \<le> i \<and> i < 2 ^ 31 \<and> fl < 2 ^ 32 \<and> list_all wf_attr as \<and>
     length (link_body i fl as) \<le> 8176"
| "wf_link (Other_frame ty body) \<longleftrightarrow>
     ty \<noteq> RTM_NEWLINK \<and> ty \<noteq> RTM_DELLINK \<and> wf_msg (ty, body)"

text \<open>The name in a list of attributes: the first \<open>IFLA_IFNAME\<close>, less its last byte.\<close>

definition name_step :: "rtattr \<Rightarrow> unit \<Rightarrow> unit + (cpp_exn + string) option" where
  "name_step a u =
     (if fst a = IFLA_IFNAME
      then Inr (Some (if snd a = [] then Inl Length_error else Inr (string_of (butlast (snd a)))))
      else Inl u)"

definition name_of :: "rtattr list \<Rightarrow> cpp_exn + string" where
  "name_of as =
     (case find (\<lambda>a. fst a = IFLA_IFNAME) as of
        None \<Rightarrow> Inr []
      | Some a \<Rightarrow> if snd a = [] then Inl Length_error else Inr (string_of (butlast (snd a))))"

lemma run_name_step: "run_frames name_step (\<lambda>_. Some (Inr [])) as u = Some (name_of as)"
  by (induction as arbitrary: u) (auto simp: name_step_def name_of_def)

interpretation ifn: frame_loop enc_attr wf_attr cap
  "\<lambda>m off len u. ifname_loop cap m off len" name_step "\<lambda>_. Some (Inr [])" for cap
proof unfold_locales
  fix m off and s :: unit
  show "ifname_loop cap m off 0 = Some (Inr [])"
    by (simp add: ifname_loop.simps)
next
  fix a m off len and s :: unit
  assume wf: "wf_attr a" and h: "holds m off (enc_attr a)"
    and fit: "off + length (enc_attr a) \<le> cap" and len: "int (length (enc_attr a)) \<le> len"
  let ?l = "length (snd a)"
  note hd = enc_attr_header [OF wf h fit]
  have "rd_bytes cap m (off + 4) (?l - 1) = Some (butlast (snd a))"
    using hd(3,4) fit by (auto intro!: rd_bytes_holds holds_butlast)
  with hd(1,2,3) len show "ifname_loop cap m off len =
      (case name_step a s of
         Inl s' \<Rightarrow> ifname_loop cap m (off + length (enc_attr a)) (len - int (length (enc_attr a)))
       | Inr r \<Rightarrow> r)"
    by (subst ifname_loop.simps)
      (auto simp: name_step_def assign_name_def layout_simps)
qed

lemma length_link_body [layout_simps]:
  "length (link_body i fl as) = 16 + length (concat (map enc_attr as))"
  by (simp add: link_body_def)

lemma holds_link_body:
  assumes "holds m off (link_body i fl as)"
  shows "holds m (off + 4) (le32 (of_i32 i))" "holds m (off + 8) (le32 fl)"
    "holds m (off + 16) (concat (map enc_attr as))"
  using assms by (simp_all add: link_body_def add_ac)

lemma holds_link_frame:
  assumes "holds m off (enc_link (Link_frame del i fl as))"
  shows "holds m (off + 20) (le32 (of_i32 i))" "holds m (off + 24) (le32 fl)"
    "holds m (off + 32) (concat (map enc_attr as))"
proof -
  have "holds m (off + 16) (link_body i fl as)"
    using holds_enc_msg(3) [of m off "(_, link_body i fl as)"] assms by simp
  from holds_link_body [OF this]
  show "holds m (off + 20) (le32 (of_i32 i))" "holds m (off + 24) (le32 fl)"
    "holds m (off + 32) (concat (map enc_attr as))"
    by (simp_all add: add.assoc)
qed

lemma extractIfName_attrs:
  assumes "wf_link (Link_frame del i fl as)" and "holds m off (enc_link (Link_frame del i fl as))"
    and "off + length (enc_link (Link_frame del i fl as)) \<le> cap" and "cap \<le> 8192"
  shows "extractIfName cap m off (16 + length (link_body i fl as)) = Some (name_of as)"
proof -
  let ?as = "concat (map enc_attr as)"
  have small: "length ?as < 8192" and h: "holds m (off + 32) ?as"
    using assms holds_link_frame(3) [OF assms(2)] by (simp_all add: layout_simps)
  have "IFLA_PAYLOAD (16 + length (link_body i fl as)) = int (length ?as)"
    using small by (simp add: IFLA_PAYLOAD_def link_body_def layout_simps to_i32_of_i32)
  then show ?thesis
    using ifn.loop_frames [of as m "off + 32" cap "()"] assms h
    by (simp add: extractIfName_def run_name_step layout_simps)
qed

text \<open>What one frame does to the callbacks' state.\<close>

fun link_step ::
  "(int \<Rightarrow> string \<Rightarrow> bool \<Rightarrow> 's \<Rightarrow> 's) \<Rightarrow> (int \<Rightarrow> 's \<Rightarrow> 's) \<Rightarrow> link_frame \<Rightarrow> 's
   \<Rightarrow> 's + (cpp_exn \<times> 's + 's) option" where
  "link_step onC onR (Link_frame del i fl as) s =
     (case name_of as of
        Inl e \<Rightarrow> Inr (Some (Inl (e, s)))
      | Inr name \<Rightarrow>
          Inl (if del then onR i s
               else if name = [] then s
               else onC i name (isOperationallyUp (of_nat fl)) s))"
| "link_step onC onR (Other_frame ty body) s = Inl s"

lemma length_enc_link: "wf_link f \<Longrightarrow> 4 dvd length (enc_link f) \<and> 16 \<le> length (enc_link f)
    \<and> length (enc_link f) \<le> 8192"
  using dvd_length_enc_attrs
  by (cases f) (auto simp: layout_simps wf_msg_def)

fun link_type :: "link_frame \<Rightarrow> nat" where
  "link_type (Link_frame del i fl as) = (if del then RTM_DELLINK else RTM_NEWLINK)"
| "link_type (Other_frame ty body) = ty"

fun link_payload :: "link_frame \<Rightarrow> bytes" where
  "link_payload (Link_frame del i fl as) = link_body i fl as"
| "link_payload (Other_frame ty body) = body"

lemma enc_link_msg: "enc_link f = enc_msg (link_type f, link_payload f)"
  by (cases f) auto

lemma link_type_less: "wf_link f \<Longrightarrow> link_type f < 65536"
  by (cases f) (auto simp: wf_msg_def)

lemma enc_link_header:
  assumes wf: "wf_link f" and h: "holds m off (enc_link f)" and fit: "off + length (enc_link f) \<le> cap"
  shows "rd32 cap m off = Some (length (enc_link f))" and "rd16 cap m (off + 4) = Some (link_type f)"
proof -
  have "length (enc_link f) \<le> 8192" using length_enc_link [OF wf] by blast
  from enc_msg_header [OF _ this [unfolded enc_link_msg] h [unfolded enc_link_msg]
      fit [unfolded enc_link_msg]] link_type_less [OF wf]
  show "rd32 cap m off = Some (length (enc_link f))" and "rd16 cap m (off + 4) = Some (link_type f)"
    by (simp_all add: enc_link_msg)
qed

lemma handle_one_link:
  assumes wf: "wf_link f" and h: "holds m off (enc_link f)"
    and fit: "off + length (enc_link f) \<le> cap" and cap: "cap \<le> 8192"
  shows "handle_one cap m onC onR off (length (enc_link f)) (link_type f) s =
    (case link_step onC onR f s of Inl s' \<Rightarrow> Some (Inr s') | Inr r \<Rightarrow> r)"
proof (cases f)
  case (Link_frame del i fl as)
  have len: "off + 32 \<le> cap" and n: "length (enc_link f) = 16 + length (link_body i fl as)"
    using fit Link_frame by (simp_all add: layout_simps)
  have i: "rd32 cap m (off + 20) = Some (of_i32 i)"
    using holds_link_frame(1) [OF h [unfolded Link_frame]] len by (intro rd32_holds) simp_all
  have fl: "rd32 cap m (off + 24) = Some fl"
    using holds_link_frame(2) [OF h [unfolded Link_frame]] len wf Link_frame
    by (intro rd32_holds) simp_all
  have name: "extractIfName cap m off (16 + length (link_body i fl as)) = Some (name_of as)"
    using wf h fit cap unfolding Link_frame by (rule extractIfName_attrs)
  have i': "to_i32 (of_i32 i) = i"
    using wf Link_frame by (intro to_i32_of_i32) simp_all
  show ?thesis
    unfolding n by (cases "name_of as") (simp_all add: handle_one_def name i fl i' Link_frame)
next
  case (Other_frame t body)
  with wf show ?thesis by (auto simp: handle_one_def)
qed

lemma link_step_stop: "link_step onC onR f s = Inr r \<Longrightarrow> \<exists>e. r = Some (Inl e)"
  by (cases f) (auto split: sum.splits)

interpretation lnk: frame_loop enc_link wf_link cap
  "\<lambda>m off len s. handleMessage cap m onC onR off (nat len) s"
  "link_step onC onR" "\<lambda>s. Some (Inr s)"
  for cap and onC :: "int \<Rightarrow> string \<Rightarrow> bool \<Rightarrow> 's \<Rightarrow> 's" and onR
proof unfold_locales
  fix m off and s :: 's
  show "handleMessage cap m onC onR off (nat 0) s = Some (Inr s)"
    by (simp add: handleMessage.simps)
next
  fix f m off len and s :: 's
  assume wf: "wf_link f" and h: "holds m off (enc_link f)"
    and fit: "off + length (enc_link f) \<le> cap" and cap: "cap \<le> 8192"
    and len: "int (length (enc_link f)) \<le> len" "len \<le> 8192"
  let ?l = "length (enc_link f)"
  note l = length_enc_link [OF wf]
  have align: "NLMSG_ALIGN ?l = ?l" using l by (intro layout_simps) auto
  have rest: "(nat len + 2 ^ 64 - ?l) mod 2 ^ 64 = nat (len - int ?l)"
  proof -
    have "nat len + 2 ^ 64 - ?l = (nat len - ?l) + 2 ^ 64" using len by simp
    moreover have "nat len - ?l < 2 ^ 64" using len by simp
    ultimately have "(nat len + 2 ^ 64 - ?l) mod 2 ^ 64 = nat len - ?l"
      by (simp only: mod_add_self2 mod_less)
    then show ?thesis using len by (simp add: nat_diff_distrib)
  qed
  have go: "(nat len < 16) = False" "(?l < 16 \<or> nat len < ?l) = False" using l len by auto
  have "handleMessage cap m onC onR off (nat len) s =
      handle_one cap m onC onR off ?l (link_type f) s \<bind> (\<lambda>r. case r of
          Inl e \<Rightarrow> Some (Inl e)
        | Inr s' \<Rightarrow> handleMessage cap m onC onR (off + ?l) (nat (len - int ?l)) s')"
    by (subst handleMessage.simps)
      (simp only: enc_link_header [OF wf h fit] align rest Option.bind.simps if_False go)
  then show "handleMessage cap m onC onR off (nat len) s =
      (case link_step onC onR f s of
         Inl s' \<Rightarrow> handleMessage cap m onC onR (off + ?l) (nat (len - int ?l)) s'
       | Inr r \<Rightarrow> r)"
    by (cases "link_step onC onR f s")
      (auto simp only: handle_one_link [OF wf h fit cap] Option.bind.simps sum.case
        dest!: link_step_stop)
qed


subsection \<open>Events\<close>

datatype link_event = Link_change int string bool | Link_removed int

fun apply_event ::
  "(int \<Rightarrow> string \<Rightarrow> bool \<Rightarrow> 's \<Rightarrow> 's) \<Rightarrow> (int \<Rightarrow> 's \<Rightarrow> 's) \<Rightarrow> link_event \<Rightarrow> 's \<Rightarrow> 's" where
  "apply_event onC onR (Link_change i name up) s = onC i name up s"
| "apply_event onC onR (Link_removed i) s = onR i s"

text \<open>What a frame reports; a present link without a name is not reported.\<close>

fun event_of :: "link_frame \<Rightarrow> link_event list" where
  "event_of (Link_frame del i fl as) =
     (case name_of as of
        Inl e \<Rightarrow> []
      | Inr name \<Rightarrow>
          if del then [Link_removed i]
          else if name = [] then []
          else [Link_change i name (isOperationallyUp (of_nat fl))])"
| "event_of (Other_frame ty body) = []"

text \<open>A frame whose name attribute, if any, has at least its terminating zero.\<close>

fun good_link :: "link_frame \<Rightarrow> bool" where
  "good_link (Link_frame del i fl as) \<longleftrightarrow>
     wf_link (Link_frame del i fl as) \<and> name_of as \<noteq> Inl Length_error"
| "good_link (Other_frame ty body) \<longleftrightarrow> wf_link (Other_frame ty body)"

lemma name_of_Inl: "name_of as = Inl e \<Longrightarrow> e = Length_error"
  by (auto simp: name_of_def split: option.splits if_splits)

lemma good_link_wf: "good_link f \<Longrightarrow> wf_link f"
  by (cases f) auto

lemma run_good_link_step:
  "good_link f \<Longrightarrow> link_step onC onR f s = Inl (fold (apply_event onC onR) (event_of f) s)"
  by (cases f) (auto split: sum.splits dest: name_of_Inl)

lemma run_good_links:
  "list_all good_link fs \<Longrightarrow>
   run_frames (link_step onC onR) fin fs s =
     fin (fold (apply_event onC onR) (concat (map event_of fs)) s)"
  by (induction fs arbitrary: s) (simp_all add: run_good_link_step)

lemma handleMessage_frames:
  assumes "list_all wf_link fs" and "length (concat (map enc_link fs)) \<le> 8192"
  shows "handleMessage 8192 (store (concat (map enc_link fs)) m) onC onR 0
           (length (concat (map enc_link fs))) s =
         run_frames (link_step onC onR) (\<lambda>s. Some (Inr s)) fs s"
  using lnk.loop_frames [of fs "store (concat (map enc_link fs)) m" 0 8192 onC onR s] assms
  by (simp only: add_0 holds_store nat_int order_refl simp_thms)

lemma handleMessage_good:
  assumes "list_all good_link fs" and "length (concat (map enc_link fs)) \<le> 8192"
  shows "handleMessage 8192 (store (concat (map enc_link fs)) m) onC onR 0
           (length (concat (map enc_link fs))) s =
         Some (Inr (fold (apply_event onC onR) (concat (map event_of fs)) s))"
proof -
  have "list_all wf_link fs" using assms(1) by (auto simp: list_all_iff good_link_wf)
  from handleMessage_frames [OF this assms(2)] show ?thesis
    by (simp add: run_good_links [OF assms(1)])
qed

lemma name_of_single [simp]: "name_of [(IFLA_IFNAME, bytes_of n @ [0])] = Inr n"
  by (simp add: name_of_def)

subsection \<open>Properties\<close>

text \<open>C9: For every batch of well-formed messages that fits the 8192-byte array, the message
  loop (\<open>handleMessage\<close>) returns, never reads outside the array, and has made exactly the
  callbacks of the batch, in order: \<open>onRemoved\<close> for each removal, \<open>onChange\<close> with the
  interface's index, name and operational state for each present link, and nothing for a
  message of another type or without a name.\<close>

theorem handleMessage_reports_batch:
  assumes "list_all good_link fs" and "length (concat (map enc_link fs)) \<le> 8192"
  shows "handleMessage 8192 (store (concat (map enc_link fs)) m) onC onR 0
           (length (concat (map enc_link fs))) s =
         Some (Inr (fold (apply_event onC onR) (concat (map event_of fs)) s))"
  using assms by (rule handleMessage_good)

definition sample_batch :: "link_frame list" where
  "sample_batch =
     [Link_frame False 3 0x10043 [(7, [1, 2, 3]), (IFLA_IFNAME, bytes_of ''wlan0'' @ [0])],
      Other_frame NLMSG_DONE (replicate 4 0),
      Link_frame True (- 1) 0 [(IFLA_IFNAME, bytes_of ''wg0'' @ [0])]]"

lemma sample_batch_good:
  "list_all good_link sample_batch" "length (concat (map enc_link sample_batch)) \<le> 8192"
  "concat (map event_of sample_batch) = [Link_change 3 ''wlan0'' True, Link_removed (- 1)]"
  by (simp_all add: sample_batch_def layout_simps RTA_ALIGN_def wf_attr_def wf_msg_def
      name_of_def isOperationallyUp_def IFF_UP_def IFF_RUNNING_def IFF_LOWER_UP_def)

theorem handleMessage_reports_batch_witness:
  "list_all good_link sample_batch \<and> length (concat (map enc_link sample_batch)) \<le> 8192 \<and>
   handleMessage 8192 (store (concat (map enc_link sample_batch)) (\<lambda>_. 0))
     (\<lambda>i n up s. s @ [Link_change i n up]) (\<lambda>i s. s @ [Link_removed i]) 0
     (length (concat (map enc_link sample_batch))) [] =
   Some (Inr [Link_change 3 ''wlan0'' True, Link_removed (- 1)])"
  using handleMessage_reports_batch [OF sample_batch_good(1,2), of "\<lambda>_. 0"
      "\<lambda>i n up s. s @ [Link_change i n up]" "\<lambda>i s. s @ [Link_removed i]" "[]"]
  by (simp add: sample_batch_good)


text \<open>An interface counts as operationally up exactly when bits 0 (\<open>IFF_UP\<close>), 6
  (\<open>IFF_RUNNING\<close>) and 16 (\<open>IFF_LOWER_UP\<close>) of its flags are all set; the other 29 bits never
  matter.\<close>

lemma isOperationallyUp_bits:
  "isOperationallyUp flags \<longleftrightarrow> bit flags 0 \<and> bit flags 6 \<and> bit flags 16"
proof -
  have "isOperationallyUp flags \<longleftrightarrow>
      flags AND 2 ^ 0 \<noteq> 0 \<and> flags AND 2 ^ 6 \<noteq> 0 \<and> flags AND 2 ^ 16 \<noteq> 0"
    by (simp add: isOperationallyUp_def IFF_UP_def IFF_RUNNING_def IFF_LOWER_UP_def)
  then show ?thesis by (simp only: and_exp_eq_0_iff_not_bit not_not)
qed

text \<open>C38: A link message whose \<open>IFLA_IFNAME\<close> has an empty payload makes the loop throw
  \<open>std::length_error\<close> (the name's length is \<open>0 - 1\<close> as a \<open>size_t\<close>): by then exactly the
  frames before it have been reported, in order, and the ones after it in the datagram never are,
  although the code means to skip a message without a name.\<close>

theorem handleMessage_empty_ifname_throws:
  assumes "list_all good_link fs" and "list_all wf_link gs"
    and "batch = fs @ Link_frame del i fl ((IFLA_IFNAME, []) # as) # gs"
    and "wf_link (Link_frame del i fl ((IFLA_IFNAME, []) # as))"
    and "length (concat (map enc_link batch)) \<le> 8192"
  shows "handleMessage 8192 (store (concat (map enc_link batch)) m) onC onR 0
           (length (concat (map enc_link batch))) s =
         Some (Inl (Length_error, fold (apply_event onC onR) (concat (map event_of fs)) s))"
proof -
  have "run_frames (link_step onC onR) (\<lambda>s. Some (Inr s)) batch s =
      Some (Inl (Length_error, fold (apply_event onC onR) (concat (map event_of fs)) s))"
    unfolding assms(3) using assms(1)
    by (induction fs arbitrary: s) (simp_all add: name_of_def run_good_link_step)
  moreover have "list_all wf_link batch"
    unfolding assms(3) using assms(1,2,4) by (auto simp: list_all_iff good_link_wf)
  ultimately show ?thesis using handleMessage_frames assms(5) by metis
qed

theorem handleMessage_empty_ifname_throws_witness:
  "handleMessage 8192
     (store (concat (map enc_link (sample_batch @ [Link_frame False 4 0x10043 [(IFLA_IFNAME, [])]] @ sample_batch))) (\<lambda>_. 0))
     (\<lambda>i n up s. s @ [Link_change i n up]) (\<lambda>i s. s @ [Link_removed i]) 0
     (length (concat (map enc_link (sample_batch @ [Link_frame False 4 0x10043 [(IFLA_IFNAME, [])]] @ sample_batch)))) []
   = Some (Inl (Length_error, [Link_change 3 ''wlan0'' True, Link_removed (- 1)]))"
proof -
  let ?b = "sample_batch @ Link_frame False 4 0x10043 [(IFLA_IFNAME, [])] # sample_batch"
  have w: "list_all wf_link sample_batch" using sample_batch_good(1) by (auto simp: list_all_iff good_link_wf)
  have f: "wf_link (Link_frame False 4 0x10043 [(IFLA_IFNAME, [])])" by (simp add: layout_simps RTA_ALIGN_def wf_attr_def)
  have l: "length (concat (map enc_link ?b)) \<le> 8192"
    by (simp add: sample_batch_def layout_simps RTA_ALIGN_def)
  show ?thesis
    using handleMessage_empty_ifname_throws [OF sample_batch_good(1) w refl f l, of "\<lambda>_. 0"
      "\<lambda>i n up s. s @ [Link_change i n up]" "\<lambda>i s. s @ [Link_removed i]" "[]"]
    by (simp add: sample_batch_good(3))
qed

text \<open>
  The datagrams the platform delivers, one batch of frames each, until it has none: \<open>sw\<close> goes
  to \<open>sw'\<close> by receiving and reporting them in order.
\<close>

inductive delivers ::
  "'w os \<Rightarrow> int \<Rightarrow> (int \<Rightarrow> string \<Rightarrow> bool \<Rightarrow> 's \<times> 'w \<Rightarrow> 's \<times> 'w) \<Rightarrow> (int \<Rightarrow> 's \<times> 'w \<Rightarrow> 's \<times> 'w)
   \<Rightarrow> link_frame list list \<Rightarrow> 's \<times> 'w \<Rightarrow> 's \<times> 'w \<Rightarrow> bool"
  for os fd onC onR where
  nothing: "sys_recv os fd True w = (None, w') \<Longrightarrow> delivers os fd onC onR [] (s, w) (s, w')"
| batch: "sys_recv os fd True w = (Some (concat (map enc_link fs)), w1) \<Longrightarrow> fs \<noteq> [] \<Longrightarrow>
    list_all good_link fs \<Longrightarrow> length (concat (map enc_link fs)) \<le> 8192 \<Longrightarrow>
    delivers os fd onC onR fss (fold (apply_event onC onR) (concat (map event_of fs)) (s, w1)) sw' \<Longrightarrow>
    delivers os fd onC onR (fs # fss) (s, w) sw'"

inductive_cases delivers_NilE: "delivers os fd onC onR [] sw sw'"
inductive_cases delivers_ConsE: "delivers os fd onC onR (fs # fss) sw sw'"

lemma processPendingMessages_delivers:
  "delivers os fd onC onR fss sw sw' \<Longrightarrow>
   processPendingMessages os fd onC onR m sw = Some (Inr sw')"
proof (induction arbitrary: m rule: delivers.induct)
  case (nothing w w' s)
  then show ?case by (subst processPendingMessages.simps) simp
next
  case (batch w fs w1 fss s sw')
  obtain f fs' where "fs = f # fs'" using batch.hyps(2) by (cases fs) auto
  then have "16 \<le> length (concat (map enc_link fs))"
    using batch.hyps(3) length_enc_link [of f] good_link_wf [of f] by auto
  then have ne: "(concat (map enc_link fs) = []) = False"
    by (metis list.size(3) not_numeral_le_zero)
  show ?case
    by (subst processPendingMessages.simps)
      (simp only: snd_conv fst_conv batch.hyps(1) ne prod.case option.case if_False
        received_simps [OF batch.hyps(4)] Let_def batch.IH
        handleMessage_good [OF batch.hyps(3,4)] Option.bind.simps sum.case)
qed

subsection \<open>A message length that is not a multiple of four\<close>

text \<open>C37: \<open>NLMSG_NEXT\<close> on the unsigned \<open>len\<close> wraps around when the last message of a batch has a
  length that is not a multiple of four: after a 17-byte message of any other type in a 17-byte
  datagram the loop goes on past the received bytes and reports a link message that an earlier
  datagram left in the array.\<close>

theorem handleMessage_runs_past_datagram:
  assumes "good_link f" and "length (enc_link f) \<le> 8000"
    and "ty < 65536" and "ty \<noteq> RTM_NEWLINK" and "ty \<noteq> RTM_DELLINK"
    and "holds m 20 (enc_link f @ replicate 4 0)"
  shows "handleMessage 8192 (store (le32 17 @ le16 ty @ replicate 11 0) m) onC onR 0 17 s =
         Some (Inr (fold (apply_event onC onR) (event_of f) s))"
proof -
  let ?m = "store (le32 17 @ le16 ty @ replicate 11 0) m"
  let ?l = "length (enc_link f)"
  let ?len = "18446744073709551613 :: nat"
  have h0: "holds ?m 0 (le32 17 @ le16 ty @ replicate 11 0)" by (rule holds_store)
  have hd: "rd32 8192 ?m 0 = Some 17" "rd16 8192 ?m 4 = Some ty"
    using h0 assms(3) by (auto simp only: holds_append length_le add_0 intro!: rd32_holds rd16_holds)
  have step1: "handleMessage 8192 ?m onC onR 0 17 s = handleMessage 8192 ?m onC onR 20 ?len s"
    by (subst handleMessage.simps)
      (simp add: hd handle_one_def assms(4,5) NLMSG_ALIGN_def del: bind_Some_iff)
  have hm: "holds ?m 20 (enc_link f @ replicate 4 0)"
    using assms(6) by (auto simp: holds_def store_def)
  then have h: "holds ?m 20 (enc_link f)" and z: "holds ?m (20 + ?l) (replicate 4 0)" by auto
  note wf = good_link_wf [OF assms(1)]
  have dvd: "4 dvd ?l" and l: "16 \<le> ?l" "?l \<le> 8192" using length_enc_link [OF wf] by blast+
  have fit: "20 + ?l \<le> 8192" using assms(2) by simp
  have align: "NLMSG_ALIGN ?l = ?l" using l by (intro NLMSG_ALIGN_aligned dvd) simp
  have rest: "(?len + 2 ^ 64 - ?l) mod 2 ^ 64 = ?len - ?l"
  proof -
    have pow: "(2 :: nat) ^ 64 = 18446744073709551616" by simp
    have "?len + 2 ^ 64 - ?l = (?len - ?l) + 2 ^ 64" using l by linarith
    moreover have "?len - ?l < 2 ^ 64" unfolding pow by linarith
    ultimately show ?thesis by (simp only: mod_add_self2 mod_less)
  qed
  have go: "(?len < 16) = False" "(?l < 16 \<or> ?len < ?l) = False" using l by simp_all
  have step2: "handleMessage 8192 ?m onC onR 20 ?len s =
      handleMessage 8192 ?m onC onR (20 + ?l) (?len - ?l) (fold (apply_event onC onR) (event_of f) s)"
    by (subst handleMessage.simps)
      (simp only: enc_link_header [OF wf h fit] align rest Option.bind.simps if_False go
        handle_one_link [OF wf h fit order_refl] run_good_link_step [OF assms(1)] sum.case)
  have "replicate 4 0 = le32 0" by (simp add: le32_def replicate_4)
  with z have "rd32 8192 ?m (20 + ?l) = Some 0"
    using assms(2) by (intro rd32_holds) (simp_all del: holds_Cons)
  then show ?thesis
    unfolding step1 step2 by (subst handleMessage.simps) simp
qed

theorem handleMessage_runs_past_datagram_witness:
  "handleMessage 8192
     (store (le32 17 @ le16 1 @ replicate 11 0)
       (store (replicate 20 0 @ enc_link (Link_frame True 7 0 [])) (\<lambda>_. 0)))
     (\<lambda>i n up s. s @ [Link_change i n up]) (\<lambda>i s. s @ [Link_removed i]) 0 17 [] =
   Some (Inr [Link_removed 7])"
proof -
  let ?f = "Link_frame True 7 0 []"
  let ?m = "store (replicate 20 0 @ enc_link ?f) (\<lambda>_. 0)"
  have "holds ?m 0 (replicate 20 0 @ enc_link ?f)" by (rule holds_store)
  then have "holds ?m 20 (enc_link ?f)" by simp
  moreover have "holds ?m 52 (replicate 4 0)"
    by (simp add: store_def layout_simps replicate_4)
  ultimately have h: "holds ?m 20 (enc_link ?f @ replicate 4 0)"
    by (simp add: layout_simps)
  have g: "good_link ?f" "length (enc_link ?f) \<le> 8000"
    by (simp_all add: layout_simps name_of_def)
  show ?thesis
    using handleMessage_runs_past_datagram [OF g _ _ _ h, of 1 "\<lambda>i n up s. s @ [Link_change i n up]"
        "\<lambda>i s. s @ [Link_removed i]" "[]"]
    by (simp add: name_of_def)
qed

end
