(* ===== verification/Process_Manager.thy ===== *)
theory Process_Manager
  imports Platform "HOL-Library.AList"
begin

section \<open>Child processes (process_manager.cpp)\<close>

text \<open>
  \<open>ProcessManager\<close> starts, stops and reaps the \<^verbatim>\<open>conwatch-tray\<close> children, one per interface
  index, with a table in each direction. \<open>m_ifindexByPid\<close>, over which \<open>stopAll\<close> iterates, is an
  association list (its order is the iteration order); \<open>m_byIfindex\<close> is a map.
\<close>

subsection \<open>Data\<close>

record tracked_process =
  tp_pid :: int
  tp_iface :: string

record process_manager =
  m_byIfindex :: "int \<rightharpoonup> tracked_process"
  m_ifindexByPid :: "(int \<times> int) list"

definition new_process_manager :: process_manager where
  "new_process_manager = \<lparr>m_byIfindex = Map.empty, m_ifindexByPid = []\<rparr>"

definition isRunning :: "process_manager \<Rightarrow> int \<Rightarrow> bool" where
  "isRunning pm ifindex \<longleftrightarrow> m_byIfindex pm ifindex \<noteq> None"

subsection \<open>Operations\<close>

text \<open>The child's side of \<open>fork\<close>: unblock every signal, run the tray, give up with 127.\<close>

definition tray_child :: "string list \<Rightarrow> child_act list" where
  "tray_child args =
     [Sigprocmask_set [], Execlp ''/usr/local/bin/conwatch-tray'' (''conwatch-tray'' # args), Exit_now 127]"

text \<open>The six arguments after \<open>ifindex\<close>, in the order of the code.\<close>

definition pm_start ::
  "'w os \<Rightarrow> int \<Rightarrow> string \<Rightarrow> string \<Rightarrow> string \<Rightarrow> string \<Rightarrow> string \<Rightarrow> string
   \<Rightarrow> process_manager \<times> 'w \<Rightarrow> process_manager \<times> 'w" where
  "pm_start os ifindex iface target target6 label gatewayIpOverride4 gatewayIpOverride6 pw =
     (let (pm, w) = pw
      in if isRunning pm ifindex then (pm, w)
         else let (pid, w) = sys_fork os (tray_child [iface, target, target6, label,
                                            gatewayIpOverride4, gatewayIpOverride6]) w
              in if pid < 0 then (pm, w)
                 else (pm\<lparr>m_byIfindex := (m_byIfindex pm)(ifindex \<mapsto> \<lparr>tp_pid = pid, tp_iface = iface\<rparr>),
                          m_ifindexByPid := AList.update pid ifindex (m_ifindexByPid pm)\<rparr>, w))"

definition pm_stop :: "'w os \<Rightarrow> int \<Rightarrow> process_manager \<times> 'w \<Rightarrow> process_manager \<times> 'w" where
  "pm_stop os ifindex pw =
     (let (pm, w) = pw
      in case m_byIfindex pm ifindex of
           None \<Rightarrow> (pm, w)
         | Some tp \<Rightarrow>
             (let w = snd (sys_kill os (tp_pid tp) SIGTERM w)
              in (pm\<lparr>m_ifindexByPid := AList.delete (tp_pid tp) (m_ifindexByPid pm),
                     m_byIfindex := (m_byIfindex pm)(ifindex := None)\<rparr>, w)))"

text \<open>Forget an exited child, if it is still tracked.\<close>

definition forget :: "int \<Rightarrow> process_manager \<Rightarrow> process_manager" where
  "forget pid pm =
     (case map_of (m_ifindexByPid pm) pid of
        None \<Rightarrow> pm
      | Some ifindex \<Rightarrow>
          pm\<lparr>m_byIfindex := (m_byIfindex pm)(ifindex := None),
             m_ifindexByPid := AList.delete pid (m_ifindexByPid pm)\<rparr>)"

text \<open>The \<open>WNOHANG\<close> loop; \<open>None\<close> if it never ends.\<close>

partial_function (option) reapExited ::
  "'w os \<Rightarrow> process_manager \<times> 'w \<Rightarrow> (process_manager \<times> 'w) option" where
  "reapExited os pw =
     (case sys_waitpid os True (snd pw) of
        (pid, w) \<Rightarrow> if 0 < pid then reapExited os (forget pid (fst pw), w) else Some (fst pw, w))"

fun kill_all :: "'w os \<Rightarrow> int list \<Rightarrow> 'w \<Rightarrow> 'w" where
  "kill_all os [] w = w"
| "kill_all os (pid # pids) w = kill_all os pids (snd (sys_kill os pid SIGTERM w))"

fun wait_all :: "'w os \<Rightarrow> nat \<Rightarrow> process_manager \<times> 'w \<Rightarrow> process_manager \<times> 'w" where
  "wait_all os 0 pw = pw"
| "wait_all os (Suc i) pw =
     (if m_ifindexByPid (fst pw) = [] then pw
      else case sys_waitpid os False (snd pw) of
        (pid, w) \<Rightarrow> if 0 < pid then wait_all os i (forget pid (fst pw), w) else (fst pw, w))"

definition stopAll :: "'w os \<Rightarrow> process_manager \<times> 'w \<Rightarrow> process_manager \<times> 'w" where
  "stopAll os pw =
     (let (pm, w) = pw; w = kill_all os (map fst (m_ifindexByPid pm)) w
      in wait_all os 200 (pm, w))"

subsection \<open>The platform's side\<close>

text \<open>
  What fork(2), waitpid(2) and kill(2) say of the set \<open>kids w\<close> of children not yet waited for:
  a successful fork adds a new positive number, a successful wait removes a member, and nothing
  else changes it.
\<close>

definition child_laws :: "'w os \<Rightarrow> ('w \<Rightarrow> int set) \<Rightarrow> bool" where
  "child_laws os kids \<longleftrightarrow>
     (\<forall>c w p w'. sys_fork os c w = (p, w') \<longrightarrow>
        (if p < 0 then kids w' = kids w
         else 0 < p \<and> p \<notin> kids w \<and> kids w' = insert p (kids w))) \<and>
     (\<forall>b w p w'. sys_waitpid os b w = (p, w') \<longrightarrow>
        (if 0 < p then p \<in> kids w \<and> kids w' = kids w - {p} else kids w' = kids w)) \<and>
     (\<forall>p sg w. kids (snd (sys_kill os p sg w)) = kids w) \<and>
     (\<forall>w. finite (kids w))"

lemma child_laws_fork:
  "child_laws os kids \<Longrightarrow> sys_fork os c w = (p, w') \<Longrightarrow> \<not> p < 0 \<Longrightarrow>
   0 < p \<and> p \<notin> kids w \<and> kids w' = insert p (kids w)"
  unfolding child_laws_def by metis

lemma child_laws_fork_fails:
  "child_laws os kids \<Longrightarrow> sys_fork os c w = (p, w') \<Longrightarrow> p < 0 \<Longrightarrow> kids w' = kids w"
  unfolding child_laws_def by metis

lemma child_laws_wait:
  "child_laws os kids \<Longrightarrow> sys_waitpid os b w = (p, w') \<Longrightarrow> 0 < p \<Longrightarrow>
   p \<in> kids w \<and> kids w' = kids w - {p}"
  unfolding child_laws_def by metis

lemma child_laws_wait_none:
  "child_laws os kids \<Longrightarrow> sys_waitpid os b w = (p, w') \<Longrightarrow> \<not> 0 < p \<Longrightarrow> kids w' = kids w"
  unfolding child_laws_def by metis

lemma child_laws_kill [simp]: "child_laws os kids \<Longrightarrow> kids (snd (sys_kill os p sg w)) = kids w"
  unfolding child_laws_def by metis

lemma child_laws_finite: "child_laws os kids \<Longrightarrow> finite (kids w)"
  unfolding child_laws_def by metis

lemma child_laws_kill_all [simp]: "child_laws os kids \<Longrightarrow> kids (kill_all os ps w) = kids w"
  by (induction ps arbitrary: w) simp_all

subsection \<open>The invariant\<close>

text \<open>
  The two tables are inverse to each other and hold children not yet waited for.
\<close>

definition inverse_tables :: "(int \<rightharpoonup> int) \<Rightarrow> (int \<rightharpoonup> tracked_process) \<Rightarrow> bool" where
  "inverse_tables P B \<longleftrightarrow> (\<forall>pid i. P pid = Some i \<longleftrightarrow> map_option tp_pid (B i) = Some pid)"

lemma inverse_tables_insert:
  "inverse_tables P B \<Longrightarrow> P pid = None \<Longrightarrow> B i = None \<Longrightarrow> tp_pid tp = pid \<Longrightarrow>
   inverse_tables (P(pid \<mapsto> i)) (B(i \<mapsto> tp))"
  unfolding inverse_tables_def by (auto split: if_splits) (metis option.distinct(1))+

lemma inverse_tables_remove:
  "inverse_tables P B \<Longrightarrow> B i = Some tp \<Longrightarrow> inverse_tables (P(tp_pid tp := None)) (B(i := None))"
  unfolding inverse_tables_def by auto (metis option.inject)

definition pm_inv :: "process_manager \<Rightarrow> int set \<Rightarrow> bool" where
  "pm_inv pm K \<longleftrightarrow>
     distinct (map fst (m_ifindexByPid pm)) \<and>
     inverse_tables (map_of (m_ifindexByPid pm)) (m_byIfindex pm) \<and>
     dom (map_of (m_ifindexByPid pm)) \<subseteq> K"

lemma map_of_update [simp]: "map_of (AList.update k v al) = (map_of al)(k \<mapsto> v)"
  by (rule update_conv')

lemma map_of_delete [simp]: "map_of (AList.delete k al) = (map_of al)(k := None)"
  by (rule delete_conv')

lemma pm_inv_new: "pm_inv new_process_manager K"
  by (simp add: pm_inv_def new_process_manager_def inverse_tables_def)

lemma pm_inv_mono: "pm_inv pm K \<Longrightarrow> K \<subseteq> K' \<Longrightarrow> pm_inv pm K'"
  by (auto simp: pm_inv_def)

lemma pm_inv_insert:
  assumes "pm_inv pm K" and "pid \<notin> K" and "m_byIfindex pm i = None"
    and "m_byIfindex pm' = (m_byIfindex pm)(i \<mapsto> \<lparr>tp_pid = pid, tp_iface = nm\<rparr>)"
    and "m_ifindexByPid pm' = AList.update pid i (m_ifindexByPid pm)"
  shows "pm_inv pm' (insert pid K)"
  using assms by (auto simp: pm_inv_def distinct_update intro!: inverse_tables_insert)

lemma pm_inv_remove:
  assumes "pm_inv pm K" and "m_byIfindex pm i = Some tp" and "K - {tp_pid tp} \<subseteq> K'"
    and "m_byIfindex pm' = (m_byIfindex pm)(i := None)"
    and "m_ifindexByPid pm' = AList.delete (tp_pid tp) (m_ifindexByPid pm)"
  shows "pm_inv pm' K'"
  using assms by (auto simp: pm_inv_def distinct_delete intro: inverse_tables_remove)

lemma pm_inv_byPid:
  "pm_inv pm K \<Longrightarrow> map_of (m_ifindexByPid pm) pid = Some i \<longleftrightarrow>
     (\<exists>tp. m_byIfindex pm i = Some tp \<and> tp_pid tp = pid)"
  by (simp add: pm_inv_def inverse_tables_def)

lemma forget_tracked:
  "pm_inv pm K \<Longrightarrow> m_byIfindex pm i = Some tp \<Longrightarrow>
   forget (tp_pid tp) pm =
     pm\<lparr>m_byIfindex := (m_byIfindex pm)(i := None),
        m_ifindexByPid := AList.delete (tp_pid tp) (m_ifindexByPid pm)\<rparr>"
  using pm_inv_byPid [of pm K "tp_pid tp" i] by (simp add: forget_def)

lemma pm_inv_forget:
  assumes inv: "pm_inv pm K" and K: "K - {pid} \<subseteq> K'"
  shows "pm_inv (forget pid pm) K'"
proof (cases "map_of (m_ifindexByPid pm) pid")
  case None
  then have "dom (map_of (m_ifindexByPid pm)) \<subseteq> K - {pid}"
    using inv unfolding pm_inv_def by (metis Diff_empty domIff subset_Diff_insert)
  with inv K None show ?thesis by (simp add: forget_def pm_inv_def subset_trans)
next
  case (Some i)
  with inv obtain tp where tp: "m_byIfindex pm i = Some tp" "tp_pid tp = pid"
    by (auto simp: pm_inv_byPid)
  from pm_inv_remove [OF inv this(1)] K tp(2) Some show ?thesis by (simp add: forget_def)
qed

definition pm_ok :: "'w os \<Rightarrow> ('w \<Rightarrow> int set) \<Rightarrow> process_manager \<times> 'w \<Rightarrow> bool" where
  "pm_ok os kids pw \<longleftrightarrow> child_laws os kids \<and> pm_inv (fst pw) (kids (snd pw))"

lemma pm_ok_start:
  assumes "pm_ok os kids pw" shows "pm_ok os kids (pm_start os i n t t6 l g4 g6 pw)"
proof (cases pw)
  case (Pair pm w)
  obtain p w' where f: "sys_fork os (tray_child [n, t, t6, l, g4, g6]) w = (p, w')" by fastforce
  have laws: "child_laws os kids" and inv: "pm_inv pm (kids w)"
    using assms Pair by (auto simp: pm_ok_def)
  show ?thesis
  proof (cases "isRunning pm i \<or> p < 0")
    case True
    with f laws inv Pair child_laws_fork_fails [OF laws f] show ?thesis
      by (auto simp: pm_ok_def pm_start_def)
  next
    case False
    with f laws inv Pair child_laws_fork [OF laws f] show ?thesis
      by (auto simp: pm_ok_def pm_start_def isRunning_def intro: pm_inv_insert)
  qed
qed

lemma pm_ok_stop: "pm_ok os kids pw \<Longrightarrow> pm_ok os kids (pm_stop os i pw)"
  by (cases pw) (auto simp: pm_ok_def pm_stop_def Let_def split: option.split intro: pm_inv_remove)

lemma pm_ok_forget:
  "pm_ok os kids (pm, w) \<Longrightarrow> sys_waitpid os b w = (pid, w') \<Longrightarrow> 0 < pid \<Longrightarrow>
   pm_ok os kids (forget pid pm, w')"
  by (auto simp: pm_ok_def intro: pm_inv_forget dest: child_laws_wait)


subsection \<open>The contract the watcher relies on\<close>

text \<open>
  \<open>tracked s i\<close> is the interface name under which a child is tracked for index \<open>i\<close>. A stop
  forgets the index, a start adds it under the given name or (fork failed, or already tracked)
  changes nothing.
\<close>

definition tracked :: "process_manager \<times> 'w \<Rightarrow> int \<rightharpoonup> string" where
  "tracked pw i = map_option tp_iface (m_byIfindex (fst pw) i)"

text \<open>Every tracked child is for an interface that is up, under its present name, and wanted.\<close>

definition covered :: "(int \<rightharpoonup> string) \<Rightarrow> (int \<rightharpoonup> string \<times> bool) \<Rightarrow> (string \<Rightarrow> bool) \<Rightarrow> bool" where
  "covered T U P \<longleftrightarrow> (\<forall>i n. T i = Some n \<longrightarrow> U i = Some (n, True) \<and> P n)"

text \<open>What should be tracked: every wanted interface that is up, under its present name.\<close>

definition wanted :: "(int \<rightharpoonup> string \<times> bool) \<Rightarrow> (string \<Rightarrow> bool) \<Rightarrow> int \<rightharpoonup> string" where
  "wanted U P i = (case U i of Some (n, True) \<Rightarrow> if P n then Some n else None | _ \<Rightarrow> None)"

locale child_tracker =
  fixes tracked :: "'s \<Rightarrow> int \<rightharpoonup> string"
    and ok :: "'s \<Rightarrow> bool"
    and start :: "int \<Rightarrow> string \<Rightarrow> 'a \<Rightarrow> 's \<Rightarrow> 's"
    and stop :: "int \<Rightarrow> 's \<Rightarrow> 's"
  assumes ok_start: "ok s \<Longrightarrow> ok (start i n a s)"
    and ok_stop: "ok s \<Longrightarrow> ok (stop i s)"
    and tracked_stop: "tracked (stop i s) = (tracked s)(i := None)"
    and tracked_start: "tracked (start i n a s) = tracked s \<or>
      tracked s i = None \<and> tracked (start i n a s) = (tracked s)(i \<mapsto> n)"
begin

lemma covered_stop: "covered (tracked s) U P \<Longrightarrow> covered (tracked (stop i s)) (U(i := u)) P"
  by (simp add: covered_def tracked_stop)

lemma covered_skip:
  "covered (tracked s) U P \<Longrightarrow> tracked s i = None \<Longrightarrow> covered (tracked s) (U(i := u)) P"
  by (auto simp: covered_def)

lemma covered_start:
  assumes "covered (tracked s) U P" and "tracked s i = None" and "P n"
  shows "covered (tracked (start i n a s)) (U(i \<mapsto> (n, True))) P"
  using tracked_start [of i n a s] assms by (auto simp: covered_def)

lemma covered_restart:
  assumes "covered (tracked s) U P" and "P n"
  shows "covered (tracked (start i n a (stop i s))) (U(i \<mapsto> (n, True))) P"
  using covered_start [OF covered_stop [OF assms(1), of i "U i"]] assms(2)
  by (simp add: tracked_stop fun_upd_idem)

lemma start_other: "j \<noteq> i \<Longrightarrow> tracked (start i n a s) j = tracked s j"
  using tracked_start [of i n a s] by auto

end

locale total_child_tracker = child_tracker +
  assumes start_succeeds: "ok s \<Longrightarrow> tracked s i = None \<Longrightarrow>
      tracked (start i n a s) = (tracked s)(i \<mapsto> n)"
begin

lemma wanted_start:
  "ok s \<Longrightarrow> tracked s = wanted U P \<Longrightarrow> tracked s i = None \<Longrightarrow> P n \<Longrightarrow>
   tracked (start i n a s) = wanted (U(i \<mapsto> (n, True))) P"
  by (auto simp: start_succeeds wanted_def)

lemma wanted_stop:
  "tracked s = wanted U P \<Longrightarrow> wanted (U(i := u)) P i = None \<Longrightarrow>
   tracked (stop i s) = wanted (U(i := u)) P"
  by (auto simp: tracked_stop wanted_def fun_eq_iff)

lemma wanted_skip:
  "tracked s = wanted U P \<Longrightarrow> wanted (U(i := u)) P i = tracked s i \<Longrightarrow>
   tracked s = wanted (U(i := u)) P"
  by (auto simp: wanted_def fun_eq_iff)

lemma wanted_restart:
  assumes "ok s" and "tracked s = wanted U P" and "P n"
  shows "tracked (start i n a (stop i s)) = wanted (U(i \<mapsto> (n, True))) P"
  using assms start_succeeds [OF ok_stop [OF assms(1)], of i i n a]
  by (auto simp: tracked_stop wanted_def fun_eq_iff)

end

text \<open>The process manager provides it; \<open>a\<close> is the rest of the child's arguments.\<close>

definition start_with ::
  "'w os \<Rightarrow> int \<Rightarrow> string \<Rightarrow> string \<times> string \<times> string \<times> string \<times> string
   \<Rightarrow> process_manager \<times> 'w \<Rightarrow> process_manager \<times> 'w" where
  "start_with os i n a = (case a of (t, t6, l, g4, g6) \<Rightarrow> pm_start os i n t t6 l g4 g6)"

lemma tracked_pm_stop: "tracked (pm_stop os i pw) = (tracked pw)(i := None)"
  by (cases pw) (auto simp: tracked_def pm_stop_def Let_def fun_eq_iff split: option.splits)

lemma tracked_pm_start:
  "tracked (pm_start os i n t t6 l g4 g6 pw) = tracked pw \<or>
   tracked pw i = None \<and> tracked (pm_start os i n t t6 l g4 g6 pw) = (tracked pw)(i \<mapsto> n)"
  by (cases pw) (auto simp: tracked_def pm_start_def isRunning_def Let_def fun_eq_iff split: prod.split)

interpretation pmt: child_tracker tracked "pm_ok os kids" "start_with os" "pm_stop os" for os kids
  by unfold_locales
    (auto simp: start_with_def pm_ok_start pm_ok_stop tracked_pm_stop tracked_pm_start
      split: prod.split)

text \<open>On a platform whose forks succeed it provides the stronger contract.\<close>

definition fork_succeeds :: "'w os \<Rightarrow> bool" where
  "fork_succeeds os \<longleftrightarrow> (\<forall>c w. 0 < fst (sys_fork os c w))"

interpretation pmt_total: total_child_tracker tracked "\<lambda>pw. pm_ok os kids pw \<and> fork_succeeds os"
  "start_with os" "pm_stop os" for os kids
proof unfold_locales
  fix i n a pw
  assume "pm_ok os kids pw \<and> fork_succeeds os" and free: "tracked pw i = None"
  then have "\<not> p < 0" if "sys_fork os c w = (p, w')" for c w p w'
    using that unfolding fork_succeeds_def by (metis fst_conv order_less_asym)
  with free show "tracked (start_with os i n a pw) = (tracked pw)(i \<mapsto> n)"
    by (cases pw)
      (auto simp: start_with_def pm_start_def isRunning_def tracked_def Let_def fun_eq_iff
        split: prod.split)
qed (auto simp: pmt.ok_start pmt.ok_stop pmt.tracked_stop pmt.tracked_start)

subsection \<open>Reaping and shutting down\<close>

lemma forget_byIfindex:
  "pm_inv pm K \<Longrightarrow> m_byIfindex (forget pid pm) i = Some tp \<longleftrightarrow>
     m_byIfindex pm i = Some tp \<and> tp_pid tp \<noteq> pid"
  using pm_inv_byPid [of pm K pid]
  by (auto simp: forget_def split: option.splits if_splits) (metis option.inject)+

lemma pm_ok_pids: "pm_ok os kids pw \<Longrightarrow> m_byIfindex (fst pw) i = Some tp \<Longrightarrow> tp_pid tp \<in> kids (snd pw)"
  using pm_inv_byPid [of "fst pw" "kids (snd pw)" "tp_pid tp" i]
  by (auto simp: pm_ok_def pm_inv_def)

lemma reapExited_result:
  "pm_ok os kids pw \<Longrightarrow> \<exists>pw'. reapExited os pw = Some pw' \<and> pm_ok os kids pw' \<and>
     kids (snd pw') \<subseteq> kids (snd pw) \<and>
     (\<forall>i tp. m_byIfindex (fst pw') i = Some tp \<longleftrightarrow>
        m_byIfindex (fst pw) i = Some tp \<and> tp_pid tp \<in> kids (snd pw'))"
proof (induction "card (kids (snd pw))" arbitrary: pw rule: less_induct)
  case less
  have laws: "child_laws os kids" and inv: "pm_inv (fst pw) (kids (snd pw))"
    using less.prems by (auto simp: pm_ok_def)
  obtain pid w where r: "sys_waitpid os True (snd pw) = (pid, w)" by fastforce
  show ?case
  proof (cases "0 < pid")
    case True
    let ?pw = "(forget pid (fst pw), w)"
    have ok: "pm_ok os kids ?pw" using pm_ok_forget [OF _ r True] less.prems by simp
    have k: "pid \<in> kids (snd pw)" "kids w = kids (snd pw) - {pid}"
      using child_laws_wait [OF laws r True] by auto
    then have "card (kids (snd ?pw)) < card (kids (snd pw))"
      using card_Diff1_less [OF child_laws_finite [OF laws] k(1)] by (simp only: snd_conv k(2))
    from less.hyps [OF this ok] obtain pw' where
      pw': "reapExited os ?pw = Some pw'" "pm_ok os kids pw'" "kids (snd pw') \<subseteq> kids w"
        "\<forall>i tp. m_byIfindex (fst pw') i = Some tp \<longleftrightarrow>
          m_byIfindex (forget pid (fst pw)) i = Some tp \<and> tp_pid tp \<in> kids (snd pw')"
      by auto
    have "reapExited os pw = Some pw'"
      using pw'(1) r True by (subst reapExited.simps) simp
    with pw' k show ?thesis
      by (auto simp: forget_byIfindex [OF inv])
  next
    case False
    with r have "reapExited os pw = Some (fst pw, w)" by (subst reapExited.simps) simp
    moreover have "kids w = kids (snd pw)" using child_laws_wait_none [OF laws r False] .
    ultimately show ?thesis using less.prems pm_ok_pids [OF less.prems] by (auto simp: pm_ok_def)
  qed
qed

lemma reapExited_induct [consumes 1, case_names finished reap]:
  assumes ret: "reapExited os pw = Some pw'"
    and stop: "\<And>pm w pid w'. sys_waitpid os True w = (pid, w') \<Longrightarrow> \<not> 0 < pid \<Longrightarrow> P (pm, w) (pm, w')"
    and reap: "\<And>pm w pid w1 pw'. sys_waitpid os True w = (pid, w1) \<Longrightarrow> 0 < pid \<Longrightarrow>
      P (forget pid pm, w1) pw' \<Longrightarrow> P (pm, w) pw'"
  shows "P pw pw'"
proof -
  have "os = os \<longrightarrow> P pw pw'"
  proof (rule reapExited.raw_induct [where P = "\<lambda>os' pw pw'. os' = os \<longrightarrow> P pw pw'", OF _ ret], goal_cases)
    case (1 f os' pw pw')
    obtain pm w where pw: "pw = (pm, w)" by (cases pw)
    obtain pid w1 where r: "sys_waitpid os True w = (pid, w1)" by (rule prod.exhaust)
    show ?case
    proof (intro impI)
      assume os: "os' = os"
      show "P pw pw'"
      proof (cases "0 < pid")
        case True
        with "1"(2) r os pw have "f os (forget pid pm, w1) = Some pw'" by simp
        from reap [OF r True] "1"(1) [OF this] pw show ?thesis by simp
      next
        case False
        with "1"(2) r os pw stop [OF r False] show ?thesis by auto
      qed
    qed
  qed
  then show ?thesis by simp
qed

text \<open>waitpid(2) without \<open>WNOHANG\<close>: while there are children, it comes back with one.\<close>

definition wait_blocks :: "'w os \<Rightarrow> ('w \<Rightarrow> int set) \<Rightarrow> bool" where
  "wait_blocks os kids \<longleftrightarrow> (\<forall>w. kids w \<noteq> {} \<longrightarrow> 0 < fst (sys_waitpid os False w))"

lemma pm_inv_empty:
  "pm_inv pm {} \<Longrightarrow> m_ifindexByPid pm = [] \<and> m_byIfindex pm = Map.empty"
proof -
  assume inv: "pm_inv pm {}"
  then have e: "m_ifindexByPid pm = []"
    by (cases "m_ifindexByPid pm") (auto simp: pm_inv_def)
  with inv have "map_option tp_pid (m_byIfindex pm i) \<noteq> Some pid" for i pid
    by (simp add: pm_inv_def inverse_tables_def)
  then have "m_byIfindex pm i = None" for i by (cases "m_byIfindex pm i") auto
  with e show ?thesis by auto
qed

lemma pm_empty_new:
  "m_ifindexByPid pm = [] \<Longrightarrow> m_byIfindex pm = Map.empty \<Longrightarrow> pm = new_process_manager"
  by (simp add: new_process_manager_def)

lemma pm_inv_no_pids: "pm_inv pm K \<Longrightarrow> m_ifindexByPid pm = [] \<Longrightarrow> m_byIfindex pm = Map.empty"
proof -
  assume "pm_inv pm K" and "m_ifindexByPid pm = []"
  then have "pm_inv pm {}" by (simp add: pm_inv_def)
  then show ?thesis by (blast dest: pm_inv_empty)
qed

lemma wait_all_empties:
  "pm_ok os kids pw \<Longrightarrow> wait_blocks os kids \<Longrightarrow> card (kids (snd pw)) \<le> n \<Longrightarrow>
   fst (wait_all os n pw) = new_process_manager"
proof (induction n arbitrary: pw)
  case 0
  then have "kids (snd pw) = {}"
    using child_laws_finite [of os kids] by (simp add: pm_ok_def)
  with 0 have "pm_inv (fst pw) {}" by (simp add: pm_ok_def)
  from pm_inv_empty [OF this] show ?case by (simp add: pm_empty_new)
next
  case (Suc n)
  have laws: "child_laws os kids" and inv: "pm_inv (fst pw) (kids (snd pw))"
    using Suc.prems(1) by (auto simp: pm_ok_def)
  obtain pid w where r: "sys_waitpid os False (snd pw) = (pid, w)" by fastforce
  show ?case
  proof (cases "m_ifindexByPid (fst pw) = []")
    case True
    with pm_inv_no_pids [OF inv] show ?thesis by (simp add: pm_empty_new)
  next
    case False
    then have "kids (snd pw) \<noteq> {}" using pm_inv_empty [of "fst pw"] inv by auto
    then have pos: "0 < pid" using Suc.prems(2) r
      by (metis fst_conv wait_blocks_def)
    have k: "pid \<in> kids (snd pw)" "kids w = kids (snd pw) - {pid}"
      using child_laws_wait [OF laws r pos] by auto
    have "pm_ok os kids (forget pid (fst pw), w)"
      using pm_ok_forget [OF _ r pos] Suc.prems(1) by simp
    moreover have "card (kids w) \<le> n" using k Suc.prems(3) child_laws_finite [OF laws] by simp
    ultimately show ?thesis using Suc.IH Suc.prems(2) False r pos by simp
  qed
qed


subsection \<open>Properties\<close>

text \<open>Any sequence of starts, stops and reaps from an empty manager.\<close>

inductive pm_reachable :: "'w os \<Rightarrow> process_manager \<times> 'w \<Rightarrow> bool" for os where
  initial: "pm_reachable os (new_process_manager, w)"
| started: "pm_reachable os pw \<Longrightarrow> pm_reachable os (pm_start os i n t t6 l g4 g6 pw)"
| stopped: "pm_reachable os pw \<Longrightarrow> pm_reachable os (pm_stop os i pw)"
| reaped: "pm_reachable os pw \<Longrightarrow> reapExited os pw = Some pw' \<Longrightarrow> pm_reachable os pw'"

lemma pm_reachable_ok:
  assumes "child_laws os kids" shows "pm_reachable os pw \<Longrightarrow> pm_ok os kids pw"
proof (induction rule: pm_reachable.induct)
  case (initial w)
  with assms show ?case by (simp add: pm_ok_def pm_inv_new)
next
  case (reaped pw pw')
  with reapExited_result [OF reaped.IH] show ?case by auto
qed (auto intro: pm_ok_start pm_ok_stop)

text \<open>A platform whose world is the list of its children; every wait finds one if there is one.\<close>

definition list_os :: "int list os" where
  "list_os = idle_os\<lparr>
     sys_fork := (\<lambda>c ks. let p = foldr max ks 0 + 1 in (p, p # ks)),
     sys_waitpid := (\<lambda>b ks. case filter (\<lambda>k. 0 < k) ks of
        [] \<Rightarrow> (-1, ks) | k # _ \<Rightarrow> (k, removeAll k ks)),
     sys_kill := (\<lambda>p sg ks. (0, ks))\<rparr>"

definition list_kids :: "int list \<Rightarrow> int set" where
  "list_kids ks = {k \<in> set ks. 0 < k}"

lemma list_os_child_laws: "child_laws list_os list_kids"
proof -
  have f: "foldr max ks 0 + 1 \<notin> set ks" for ks :: "int list"
    using foldr_max_ge(1) [of "foldr max ks 0 + 1" ks] by auto
  have w: "\<exists>k'. sys_waitpid list_os b ks = (k', removeAll k' ks) \<and> k' \<in> list_kids ks \<or>
      sys_waitpid list_os b ks = (-1, ks)" for b ks
    by (auto simp: list_os_def list_kids_def split: list.split dest: filter_eq_ConsD)
  show ?thesis
    unfolding child_laws_def
  proof (intro conjI allI impI)
    fix c ks p ks' assume "sys_fork list_os c ks = (p, ks')"
    then show "if p < 0 then list_kids ks' = list_kids ks
       else 0 < p \<and> p \<notin> list_kids ks \<and> list_kids ks' = insert p (list_kids ks)"
      using f [of ks] foldr_max_ge(2) [of ks] by (auto simp: list_os_def list_kids_def Let_def)
  next
    fix b ks p ks' assume "sys_waitpid list_os b ks = (p, ks')"
    with w [of b ks] show "if 0 < p then p \<in> list_kids ks \<and> list_kids ks' = list_kids ks - {p}
       else list_kids ks' = list_kids ks"
      by (auto simp: list_kids_def)
  qed (simp_all add: list_os_def list_kids_def)
qed

lemma list_os_wait_blocks: "wait_blocks list_os list_kids"
  by (auto simp: wait_blocks_def list_os_def list_kids_def filter_empty_conv split: list.split
      dest!: filter_eq_ConsD)

text \<open>C19: After any sequence of starts, stops and reaps the two tables of the process manager
  are inverse to each other (a pid is recorded for an interface index exactly when that index
  records that pid), and every recorded pid is a child not yet waited for: the manager never
  signals a pid that the kernel may have given to another process.\<close>

theorem process_tables_inverse:
  assumes "child_laws os kids" and "pm_reachable os (pm, w)"
  shows "(map_of (m_ifindexByPid pm) pid = Some i \<longleftrightarrow>
      (\<exists>tp. m_byIfindex pm i = Some tp \<and> tp_pid tp = pid)) \<and>
    (map_of (m_ifindexByPid pm) pid = Some i \<longrightarrow> pid \<in> kids w)"
proof -
  have "pm_inv pm (kids w)" using pm_reachable_ok [OF assms] by (simp add: pm_ok_def)
  with pm_inv_byPid [OF this, of pid i] show ?thesis by (auto simp: pm_inv_def)
qed

lemma sample_started:
  "pm_start list_os 3 ''wlan0'' ''1.1.1.1'' [] ''WiFi'' [] [] (new_process_manager, []) =
   (\<lparr>m_byIfindex = [3 \<mapsto> \<lparr>tp_pid = 1, tp_iface = ''wlan0''\<rparr>], m_ifindexByPid = [(1, 3)]\<rparr>, [1])"
  by (simp add: pm_start_def list_os_def new_process_manager_def isRunning_def)

lemma sample_reachable:
  "pm_reachable list_os
   (\<lparr>m_byIfindex = [3 \<mapsto> \<lparr>tp_pid = 1, tp_iface = ''wlan0''\<rparr>], m_ifindexByPid = [(1, 3)]\<rparr>, [1])"
  unfolding sample_started [symmetric] by (rule pm_reachable.started [OF pm_reachable.initial])

theorem process_tables_inverse_witness: "(1 :: int) \<in> list_kids [1]"
  using process_tables_inverse [OF list_os_child_laws sample_reachable, of 1 3] by simp

text \<open>
  waitpid(2) with \<open>WNOHANG\<close>: \<open>exited w\<close> are the children that have ended and are not yet waited for.
  The call gives one of them if there is one; others may end while it runs.
\<close>

definition reap_laws :: "'w os \<Rightarrow> ('w \<Rightarrow> int set) \<Rightarrow> bool" where
  "reap_laws os exited \<longleftrightarrow>
     (\<forall>w p w'. sys_waitpid os True w = (p, w') \<longrightarrow>
        (if 0 < p then p \<in> exited w \<and> exited w - {p} \<subseteq> exited w' else exited w = {}))"

lemma reap_laws_wait:
  assumes "reap_laws os exited" and "sys_waitpid os True w = (p, w')"
  shows "0 < p \<Longrightarrow> p \<in> exited w \<and> exited w - {p} \<subseteq> exited w'" and "\<not> 0 < p \<Longrightarrow> exited w = {}"
  using assms unfolding reap_laws_def by (metis (full_types))+

lemma reapExited_exited:
  assumes "reapExited os pw = Some pw'" and c: "child_laws os kids" and r: "reap_laws os exited"
  shows "kids (snd pw') \<subseteq> kids (snd pw) \<and> kids (snd pw') \<inter> exited (snd pw) = {} \<and>
    ((\<forall>w. exited (snd (sys_waitpid os True w)) \<subseteq> exited w) \<longrightarrow> kids (snd pw) - exited (snd pw) \<subseteq> kids (snd pw'))"
  using assms(1)
proof (induction rule: reapExited_induct)
  case (finished pm w pid w')
  with child_laws_wait_none [OF c finished] reap_laws_wait(2) [OF r finished(1)] show ?case by simp
next
  case (reap pm w pid w1 pw')
  note k = child_laws_wait [OF c reap.hyps(1,2)] and e = reap_laws_wait(1) [OF r reap.hyps(1,2)]
  note ih = reap.IH [simplified]
  have sub: "kids (snd pw') \<subseteq> kids w" using ih k by blast
  have none: "kids (snd pw') \<inter> exited w = {}" using ih k e by blast
  have "kids w - exited w \<subseteq> kids (snd pw')" if a: "\<forall>w. exited (snd (sys_waitpid os True w)) \<subseteq> exited w"
  proof -
    have "exited w1 \<subseteq> exited w" using a [rule_format, of w] reap.hyps(1) by simp
    moreover have "kids w1 - exited w1 \<subseteq> kids (snd pw')" using ih a by blast
    ultimately show ?thesis using k e by blast
  qed
  with sub none show ?case by simp
qed

text \<open>C28: Reaping comes to an end, and then every child that had exited when it began has been waited for,
  however many there are (one \<open>SIGCHLD\<close> can stand for several); an interface is still tracked, with the
  same child, exactly when it was before and its child has not been waited for; and if no other
  child ends meanwhile, no other child is waited for.\<close>

theorem reapExited_forgets_exited:
  assumes "child_laws os kids" and "reap_laws os exited" and "pm_reachable os pw"
  shows "\<exists>pw'. reapExited os pw = Some pw' \<and> kids (snd pw') \<inter> exited (snd pw) = {} \<and>
     (\<forall>i tp. m_byIfindex (fst pw') i = Some tp \<longleftrightarrow>
        m_byIfindex (fst pw) i = Some tp \<and> tp_pid tp \<in> kids (snd pw')) \<and>
     ((\<forall>w. exited (snd (sys_waitpid os True w)) \<subseteq> exited w) \<longrightarrow>
        kids (snd pw') = kids (snd pw) - exited (snd pw))"
proof -
  from reapExited_result [OF pm_reachable_ok [OF assms(1,3)]] obtain pw' where
    r: "reapExited os pw = Some pw'" and t: "\<forall>i tp. m_byIfindex (fst pw') i = Some tp \<longleftrightarrow>
      m_byIfindex (fst pw) i = Some tp \<and> tp_pid tp \<in> kids (snd pw')" by blast
  from reapExited_exited [OF r assms(1,2)] r t show ?thesis by (intro exI [of _ pw']) blast
qed

text \<open>Two interfaces, both of whose children have exited.\<close>

lemma sample_two:
  "pm_reachable list_os
    (\<lparr>m_byIfindex = [3 \<mapsto> \<lparr>tp_pid = 1, tp_iface = ''wlan0''\<rparr>, 4 \<mapsto> \<lparr>tp_pid = 2, tp_iface = ''wg0''\<rparr>],
      m_ifindexByPid = [(1, 3), (2, 4)]\<rparr>, [2, 1])"
proof -
  have "pm_start list_os 4 ''wg0'' [] [] [] [] []
      (\<lparr>m_byIfindex = [3 \<mapsto> \<lparr>tp_pid = 1, tp_iface = ''wlan0''\<rparr>], m_ifindexByPid = [(1, 3)]\<rparr>, [1]) =
    (\<lparr>m_byIfindex = [3 \<mapsto> \<lparr>tp_pid = 1, tp_iface = ''wlan0''\<rparr>, 4 \<mapsto> \<lparr>tp_pid = 2, tp_iface = ''wg0''\<rparr>],
      m_ifindexByPid = [(1, 3), (2, 4)]\<rparr>, [2, 1])"
    by (simp add: pm_start_def list_os_def isRunning_def)
  with pm_reachable.started [OF sample_reachable] show ?thesis by metis
qed

theorem reapExited_forgets_exited_witness:
  "\<exists>pw'. reapExited list_os
     (\<lparr>m_byIfindex = [3 \<mapsto> \<lparr>tp_pid = 1, tp_iface = ''wlan0''\<rparr>, 4 \<mapsto> \<lparr>tp_pid = 2, tp_iface = ''wg0''\<rparr>],
       m_ifindexByPid = [(1, 3), (2, 4)]\<rparr>, [2, 1]) = Some pw' \<and> m_byIfindex (fst pw') 3 = None \<and>
     m_byIfindex (fst pw') 4 = None"
proof -
  have r: "reap_laws list_os list_kids"
    by (auto simp: reap_laws_def list_os_def list_kids_def filter_empty_conv split: list.splits dest!: filter_eq_ConsD)
  have two: "list_kids [2, 1] = {1, 2}" by (auto simp: list_kids_def)
  from reapExited_forgets_exited [OF list_os_child_laws r sample_two, unfolded two snd_conv fst_conv] obtain pw' where
    "reapExited list_os (\<lparr>m_byIfindex = [3 \<mapsto> \<lparr>tp_pid = 1, tp_iface = ''wlan0''\<rparr>, 4 \<mapsto> \<lparr>tp_pid = 2, tp_iface = ''wg0''\<rparr>],
       m_ifindexByPid = [(1, 3), (2, 4)]\<rparr>, [2, 1]) = Some pw'"
    and k: "list_kids (snd pw') \<inter> {1, 2} = {}"
    and t: "\<And>i tp. m_byIfindex (fst pw') i = Some tp \<longleftrightarrow>
       [3 \<mapsto> \<lparr>tp_pid = 1, tp_iface = ''wlan0''\<rparr>, 4 \<mapsto> \<lparr>tp_pid = 2, tp_iface = ''wg0''\<rparr>] i = Some tp \<and>
       tp_pid tp \<in> list_kids (snd pw')" by auto
  moreover have "m_byIfindex (fst pw') i = None" if "i \<in> {3, 4}" for i
  proof (rule ccontr)
    assume "m_byIfindex (fst pw') i \<noteq> None"
    then obtain tp where "m_byIfindex (fst pw') i = Some tp" by blast
    with t [of i tp] k that show False by (auto split: if_splits)
  qed
  ultimately show ?thesis by blast
qed

text \<open>C27: Shutdown: \<open>stopAll\<close> first sends SIGTERM once to the child of every tracked interface
  and to no other process, then waits; with at most 200 children not yet waited for, all of
  which end, it returns with both tables empty.\<close>

theorem stopAll_leaves_none:
  assumes "child_laws os kids" and "pm_reachable os (pm, w)" and "wait_blocks os kids"
    and "card (kids w) \<le> 200"
  shows "fst (stopAll os (pm, w)) = new_process_manager \<and>
    (\<exists>pids. distinct pids \<and> set pids = {tp_pid tp | tp i. m_byIfindex pm i = Some tp} \<and>
       stopAll os (pm, w) =
         wait_all os 200 (pm, fold (\<lambda>pid w. snd (sys_kill os pid SIGTERM w)) pids w))"
proof -
  let ?pids = "map fst (m_ifindexByPid pm)"
  have ok: "pm_ok os kids (pm, w)" by (rule pm_reachable_ok [OF assms(1,2)])
  then have inv: "pm_inv pm (kids w)" by (simp add: pm_ok_def)
  have "pm_ok os kids (pm, kill_all os ?pids w)" using ok by (simp add: pm_ok_def)
  from wait_all_empties [OF this assms(3), of 200] assms(1,4)
  have "fst (stopAll os (pm, w)) = new_process_manager" by (simp add: stopAll_def)
  moreover have "kill_all os ps w = fold (\<lambda>pid w. snd (sys_kill os pid SIGTERM w)) ps w" for ps
    by (induction ps arbitrary: w) auto
  moreover have "set ?pids = {tp_pid tp | tp i. m_byIfindex pm i = Some tp}"
  proof -
    have "set ?pids = dom (map_of (m_ifindexByPid pm))" by (simp add: dom_map_of_conv_image_fst)
    then show ?thesis using pm_inv_byPid [OF inv] by (auto simp: dom_def)
  qed
  moreover have "distinct ?pids" using inv by (simp add: pm_inv_def)
  ultimately show ?thesis by (intro conjI exI [of _ ?pids]) (auto simp: stopAll_def)
qed

theorem stopAll_leaves_none_witness:
  "fst (stopAll list_os
    (\<lparr>m_byIfindex = [3 \<mapsto> \<lparr>tp_pid = 1, tp_iface = ''wlan0''\<rparr>], m_ifindexByPid = [(1, 3)]\<rparr>, [1]))
   = new_process_manager"
proof -
  have "list_kids [1] = {1}" by (auto simp: list_kids_def)
  then show ?thesis
    using stopAll_leaves_none [OF list_os_child_laws sample_reachable list_os_wait_blocks] by simp
qed

end
