(* ===== verification/Config_Load.thy ===== *)
theory Config_Load
  imports Platform "HOL-Library.Sublist"
begin

section \<open>Loading the configuration (config.hpp, config_load.cpp)\<close>

text \<open>
  The configuration, its loading from YAML with the include/exclude check, and the
  eligibility question. \<open>yaml-cpp\<close> and \<open>fnmatch\<close> are parameters: the first as a record of the
  operations the loader calls, the second as the relation "pattern matches string" (\<open>fnmatch\<close>
  with flags 0 returned 0).
\<close>

subsection \<open>Data\<close>

record interface_override =
  ov_label :: string
  ov_target :: "string option"
  ov_target6 :: "string option"
  ov_gatewayIpOverride4 :: "string option"
  ov_gatewayIpOverride6 :: "string option"

definition new_override :: interface_override where
  "new_override = \<lparr>ov_label = [], ov_target = None, ov_target6 = None,
     ov_gatewayIpOverride4 = None, ov_gatewayIpOverride6 = None\<rparr>"

record config =
  include_pats :: "string list"
  exclude_pats :: "string list"
  defaultTarget :: string
  defaultTarget6 :: "string option"
  interfaces :: "string \<rightharpoonup> interface_override"

definition new_config :: config where
  "new_config = \<lparr>include_pats = [], exclude_pats = [], defaultTarget = ''1.1.1.1'',
     defaultTarget6 = None, interfaces = Map.empty\<rparr>"

text \<open>How a function of the program ends: it returns, exits the process, or throws.\<close>

datatype 'a outcome = Returned 'a | Exited int | Threw cpp_exn

text \<open>
  The YAML operations: \<open>YAML::LoadFile\<close>, \<open>node[key]\<close>, the node's truth value, \<open>as<string>()\<close>,
  and iteration over a sequence and over a map. \<open>None\<close> is an escaping \<open>YAML::Exception\<close>.
\<close>

record 'n yaml =
  y_load :: "string \<Rightarrow> 'n option"
  y_sub :: "'n \<Rightarrow> string \<Rightarrow> 'n option"
  y_defined :: "'n \<Rightarrow> bool"
  y_string :: "'n \<Rightarrow> string option"
  y_items :: "'n \<Rightarrow> 'n list option"
  y_pairs :: "'n \<Rightarrow> ('n \<times> 'n) list option"

subsection \<open>The loader\<close>

text \<open>\<open>if (node[key]) ... node[key].as<string>()\<close>, the access every scalar key uses.\<close>

definition opt_string :: "'n yaml \<Rightarrow> 'n \<Rightarrow> string \<Rightarrow> string option option" where
  "opt_string y node key = do {
     n \<leftarrow> y_sub y node key;
     if y_defined y n then do { s \<leftarrow> y_string y n; Some (Some s) } else Some None
   }"

definition applyScalars :: "'n yaml \<Rightarrow> 'n \<Rightarrow> config \<Rightarrow> config option" where
  "applyScalars y root cfg = do {
     t \<leftarrow> opt_string y root ''default_target'';
     let cfg = (case t of None \<Rightarrow> cfg | Some s \<Rightarrow> cfg\<lparr>defaultTarget := s\<rparr>);
     t6 \<leftarrow> opt_string y root ''default_target6'';
     Some (case t6 of None \<Rightarrow> cfg | Some s \<Rightarrow> cfg\<lparr>defaultTarget6 := Some s\<rparr>)
   }"

fun strings_of :: "'n yaml \<Rightarrow> 'n list \<Rightarrow> string list option" where
  "strings_of y [] = Some []"
| "strings_of y (n # ns) = do { s \<leftarrow> y_string y n; ss \<leftarrow> strings_of y ns; Some (s # ss) }"

definition pattern_list :: "'n yaml \<Rightarrow> 'n \<Rightarrow> string \<Rightarrow> string list option" where
  "pattern_list y root key = do {
     n \<leftarrow> y_sub y root key;
     if y_defined y n then do { ns \<leftarrow> y_items y n; strings_of y ns } else Some []
   }"

definition applyPatternLists :: "'n yaml \<Rightarrow> 'n \<Rightarrow> config \<Rightarrow> config option" where
  "applyPatternLists y root cfg = do {
     inc \<leftarrow> pattern_list y root ''include'';
     let cfg = cfg\<lparr>include_pats := include_pats cfg @ inc\<rparr>;
     exc \<leftarrow> pattern_list y root ''exclude'';
     Some (cfg\<lparr>exclude_pats := exclude_pats cfg @ exc\<rparr>)
   }"

definition parseOverride :: "'n yaml \<Rightarrow> 'n \<times> 'n \<Rightarrow> interface_override option" where
  "parseOverride y entry = do {
     ifaceName \<leftarrow> y_string y (fst entry);
     let node = snd entry;
     lbl \<leftarrow> opt_string y node ''label'';
     t \<leftarrow> opt_string y node ''target'';
     t6 \<leftarrow> opt_string y node ''target6'';
     g4 \<leftarrow> opt_string y node ''gateway_ip_override4'';
     g6 \<leftarrow> opt_string y node ''gateway_ip_override6'';
     Some (new_override\<lparr>ov_label := (case lbl of Some s \<Rightarrow> s | None \<Rightarrow> ifaceName),
       ov_target := t, ov_target6 := t6,
       ov_gatewayIpOverride4 := g4, ov_gatewayIpOverride6 := g6\<rparr>)
   }"

fun add_overrides :: "'n yaml \<Rightarrow> ('n \<times> 'n) list \<Rightarrow> config \<Rightarrow> config option" where
  "add_overrides y [] cfg = Some cfg"
| "add_overrides y (it # its) cfg = do {
     ov \<leftarrow> parseOverride y it;
     name \<leftarrow> y_string y (fst it);
     add_overrides y its (cfg\<lparr>interfaces := (interfaces cfg)(name \<mapsto> ov)\<rparr>)
   }"

definition applyInterfaceOverrides :: "'n yaml \<Rightarrow> 'n \<Rightarrow> config \<Rightarrow> config option" where
  "applyInterfaceOverrides y root cfg = do {
     n \<leftarrow> y_sub y root ''interfaces'';
     if \<not> y_defined y n then Some cfg
     else do { its \<leftarrow> y_pairs y n; add_overrides y its cfg }
   }"

definition isNoopPattern :: "string list \<Rightarrow> bool" where
  "isNoopPattern patterns \<longleftrightarrow> length patterns = 1 \<and> patterns ! 0 = ''*''"

text \<open>\<open>validatePrecedence\<close>: \<open>None\<close> to go on, \<open>Some code\<close> for \<open>exit(code)\<close>.\<close>

definition validatePrecedence :: "config \<Rightarrow> int option" where
  "validatePrecedence cfg =
     (let includeReal = include_pats cfg \<noteq> [] \<and> \<not> isNoopPattern (include_pats cfg);
          excludeReal = exclude_pats cfg \<noteq> [] \<and> \<not> isNoopPattern (exclude_pats cfg)
      in if \<not> includeReal \<or> \<not> excludeReal then None else Some 1)"

text \<open>The reading half of \<open>load\<close>; what follows it is the validation.\<close>

definition readConfig :: "'n yaml \<Rightarrow> string \<Rightarrow> config option" where
  "readConfig y path = do {
     root \<leftarrow> y_load y path;
     cfg \<leftarrow> applyScalars y root new_config;
     cfg \<leftarrow> applyPatternLists y root cfg;
     applyInterfaceOverrides y root cfg
   }"

definition loadConfig :: "'n yaml \<Rightarrow> string \<Rightarrow> config outcome" where
  "loadConfig y path =
     (case readConfig y path of
        None \<Rightarrow> Threw Yaml_exception
      | Some cfg \<Rightarrow> (case validatePrecedence cfg of None \<Rightarrow> Returned cfg | Some c \<Rightarrow> Exited c))"

subsection \<open>Eligibility\<close>

fun matchesAny :: "(string \<Rightarrow> string \<Rightarrow> bool) \<Rightarrow> string list \<Rightarrow> string \<Rightarrow> bool" where
  "matchesAny fnm [] name = False"
| "matchesAny fnm (p # ps) name = (if fnm p name then True else matchesAny fnm ps name)"

definition isEligible :: "(string \<Rightarrow> string \<Rightarrow> bool) \<Rightarrow> config \<Rightarrow> string \<Rightarrow> bool" where
  "isEligible fnm cfg name =
     (let includeReal = include_pats cfg \<noteq> [] \<and> \<not> isNoopPattern (include_pats cfg)
      in if includeReal then matchesAny fnm (include_pats cfg) name
         else if exclude_pats cfg \<noteq> [] then \<not> matchesAny fnm (exclude_pats cfg) name
         else True)"

lemma matchesAny_iff: "matchesAny fnm ps name \<longleftrightarrow> (\<exists>p \<in> set ps. fnm p name)"
  by (induction ps) auto

lemma isNoopPattern_iff [simp]: "isNoopPattern ps \<longleftrightarrow> ps = [''*'']"
  by (cases ps) (auto simp: isNoopPattern_def)

text \<open>Patterns that restrict anything: some, and not just the documented no-op \<open>*\<close>.\<close>

definition real_patterns :: "string list \<Rightarrow> bool" where
  "real_patterns ps \<longleftrightarrow> ps \<noteq> [] \<and> ps \<noteq> [''*'']"

lemma validatePrecedence_None:
  "validatePrecedence cfg = None \<longleftrightarrow>
   \<not> (real_patterns (include_pats cfg) \<and> real_patterns (exclude_pats cfg))"
  by (auto simp: validatePrecedence_def real_patterns_def Let_def)

lemma loadConfig_Returned:
  "loadConfig y path = Returned cfg \<Longrightarrow> validatePrecedence cfg = None"
  by (auto simp: loadConfig_def split: option.splits)

text \<open>
  What POSIX says of \<open>fnmatch\<close> with no flags, for the patterns the shipped configuration uses: a
  pattern without special characters matches itself only, and one followed by a star matches
  the strings it is a prefix of.
\<close>

definition plain :: "string \<Rightarrow> bool" where
  "plain p \<longleftrightarrow> set p \<inter> {CHR ''*'', CHR ''?'', CHR ''['', CHR 0x5C} = {}"

definition fnmatch_laws :: "(string \<Rightarrow> string \<Rightarrow> bool) \<Rightarrow> bool" where
  "fnmatch_laws fnm \<longleftrightarrow>
     (\<forall>p s. plain p \<longrightarrow> fnm p s = (p = s) \<and> fnm (p @ ''*'') s = prefix p s)"

text \<open>A matcher for stars and question marks, for the witnesses.\<close>

fun star_match :: "string \<Rightarrow> string \<Rightarrow> bool" where
  "star_match [] s = (s = [])"
| "star_match (p # ps) [] = (p = CHR ''*'' \<and> star_match ps [])"
| "star_match (p # ps) (c # cs) =
     (if p = CHR ''*'' then star_match ps (c # cs) \<or> star_match (p # ps) cs
      else (p = CHR ''?'' \<or> p = c) \<and> star_match ps cs)"

lemma star_match_star [simp]: "star_match ''*'' s"
  by (induction s) auto

lemma star_match_plain: "plain p \<Longrightarrow> star_match p s = (p = s)"
  by (induction p s rule: star_match.induct) (auto simp: plain_def)

lemma star_match_prefix: "plain p \<Longrightarrow> star_match (p @ ''*'') s = prefix p s"
proof (induction p arbitrary: s)
  case (Cons c p)
  then have "plain p" "c \<noteq> CHR ''*''" "c \<noteq> CHR ''?''" by (auto simp: plain_def)
  with Cons.IH show ?case by (cases s) auto
qed simp

lemma fnmatch_laws_star_match: "fnmatch_laws star_match"
  by (simp add: fnmatch_laws_def star_match_plain star_match_prefix)


text \<open>YAML documents as trees, for the witnesses.\<close>

datatype ynode = Y_undefined | Y_scalar string | Y_seq "ynode list" | Y_map "(ynode \<times> ynode) list"

definition tree_yaml :: "ynode \<Rightarrow> ynode yaml" where
  "tree_yaml doc = \<lparr>
     y_load = (\<lambda>path. Some doc),
     y_sub = (\<lambda>n key. case n of
        Y_map kvs \<Rightarrow> Some (case map_of kvs (Y_scalar key) of None \<Rightarrow> Y_undefined | Some v \<Rightarrow> v)
      | Y_scalar s \<Rightarrow> None
      | _ \<Rightarrow> Some Y_undefined),
     y_defined = (\<lambda>n. n \<noteq> Y_undefined),
     y_string = (\<lambda>n. case n of Y_scalar s \<Rightarrow> Some s | _ \<Rightarrow> None),
     y_items = (\<lambda>n. case n of Y_seq ns \<Rightarrow> Some ns | _ \<Rightarrow> Some []),
     y_pairs = (\<lambda>n. case n of Y_map kvs \<Rightarrow> Some kvs | _ \<Rightarrow> Some []) \<rparr>"

lemmas load_defs = loadConfig_def readConfig_def applyScalars_def applyPatternLists_def
  applyInterfaceOverrides_def parseOverride_def pattern_list_def opt_string_def Let_def
  new_config_def new_override_def

subsection \<open>What the loader guarantees\<close>

lemma add_overrides_frame:
  "add_overrides y its cfg = Some cfg' \<Longrightarrow>
   include_pats cfg' = include_pats cfg \<and> exclude_pats cfg' = exclude_pats cfg \<and>
   defaultTarget cfg' = defaultTarget cfg \<and> defaultTarget6 cfg' = defaultTarget6 cfg"
  by (induction its arbitrary: cfg) auto

lemma add_overrides_other:
  "add_overrides y its cfg = Some cfg' \<Longrightarrow> \<forall>it \<in> set its. y_string y (fst it) \<noteq> Some name \<Longrightarrow>
   interfaces cfg' name = interfaces cfg name"
proof (induction its arbitrary: cfg)
  case (Cons it its)
  from Cons.prems obtain ov nm where "y_string y (fst it) = Some nm"
    and rest: "add_overrides y its (cfg\<lparr>interfaces := (interfaces cfg)(nm \<mapsto> ov)\<rparr>) = Some cfg'"
    by auto
  with Cons.prems(2) have "nm \<noteq> name" by auto
  with Cons.IH [OF rest] Cons.prems(2) show ?case by simp
qed simp

lemma add_overrides_append:
  "add_overrides y (its @ its') cfg = add_overrides y its cfg \<bind> add_overrides y its'"
  by (induction its arbitrary: cfg) (simp_all add: Option.bind_assoc)

text \<open>The last entry for a name is the one the configuration has.\<close>

lemma add_overrides_last:
  assumes "add_overrides y (its @ it # its') cfg = Some cfg'"
    and "y_string y (fst it) = Some name"
    and "\<forall>it \<in> set its'. y_string y (fst it) \<noteq> Some name"
  shows "interfaces cfg' name = parseOverride y it"
proof -
  obtain c ov where "parseOverride y it = Some ov"
    and "add_overrides y its' (c\<lparr>interfaces := (interfaces c)(name \<mapsto> ov)\<rparr>) = Some cfg'"
    using assms(1,2) by (auto simp: add_overrides_append)
  with add_overrides_other [OF this(2) assms(3)] show ?thesis by simp
qed

lemma applyScalars_frame:
  "applyScalars y root cfg = Some cfg' \<Longrightarrow> interfaces cfg' = interfaces cfg \<and>
   include_pats cfg' = include_pats cfg \<and> exclude_pats cfg' = exclude_pats cfg"
  by (auto simp: applyScalars_def Let_def split: option.splits)

text \<open>C21: A configuration the loader returns decides eligibility as documented, whatever
  \<open>fnmatch\<close> does: an interface is monitored exactly when it matches the include patterns, if any
  restrict, and matches none of the exclude patterns, if any restrict (patterns other than the
  single \<open>*\<close>), provided the exclude list is not that single \<open>*\<close>.\<close>

theorem isEligible_loaded_policy:
  assumes "loadConfig y path = Returned cfg" and "exclude_pats cfg \<noteq> [''*'']"
  shows "isEligible fnm cfg name \<longleftrightarrow>
    (real_patterns (include_pats cfg) \<longrightarrow> (\<exists>p \<in> set (include_pats cfg). fnm p name)) \<and>
    (real_patterns (exclude_pats cfg) \<longrightarrow> (\<forall>p \<in> set (exclude_pats cfg). \<not> fnm p name))"
  using loadConfig_Returned [OF assms(1)] assms(2)
  by (auto simp: validatePrecedence_None isEligible_def real_patterns_def matchesAny_iff Let_def)

definition sample_doc :: ynode where
  "sample_doc = Y_map
     [(Y_scalar ''default_target'', Y_scalar ''9.9.9.9''),
      (Y_scalar ''exclude'', Y_seq [Y_scalar ''lo'', Y_scalar ''docker*'']),
      (Y_scalar ''interfaces'', Y_map
        [(Y_scalar ''wg0'', Y_map [(Y_scalar ''label'', Y_scalar ''Old'')]),
         (Y_scalar ''wg0'', Y_map [(Y_scalar ''label'', Y_scalar ''VPN''),
                                  (Y_scalar ''target'', Y_scalar ''10.0.0.1''),
                                  (Y_scalar ''gateway_ip_override6'', Y_scalar ''none'')])])]"

definition sample_config :: config where
  "sample_config = \<lparr>include_pats = [], exclude_pats = [''lo'', ''docker*''],
     defaultTarget = ''9.9.9.9'', defaultTarget6 = None,
     interfaces = [''wg0'' \<mapsto> \<lparr>ov_label = ''VPN'', ov_target = Some ''10.0.0.1'', ov_target6 = None,
       ov_gatewayIpOverride4 = None, ov_gatewayIpOverride6 = Some ''none''\<rparr>]\<rparr>"

lemma load_sample: "loadConfig (tree_yaml sample_doc) path = Returned sample_config"
  by (simp add: load_defs tree_yaml_def sample_doc_def sample_config_def validatePrecedence_def)

theorem isEligible_loaded_policy_witness:
  "isEligible star_match sample_config ''wlan0'' \<and> \<not> isEligible star_match sample_config ''docker0''"
  using isEligible_loaded_policy [OF load_sample, of star_match]
  by (simp add: sample_config_def real_patterns_def)

text \<open>Loading ends the process with status 1 exactly when the file is read without an error
  and both lists restrict; it never returns such a configuration, and it throws exactly when
  reading failed.\<close>

lemma loadConfig_outcomes:
  "(loadConfig y path = Exited c \<longleftrightarrow> c = 1 \<and> (\<exists>cfg. readConfig y path = Some cfg \<and>
      real_patterns (include_pats cfg) \<and> real_patterns (exclude_pats cfg))) \<and>
   (loadConfig y path = Threw e \<longleftrightarrow> e = Yaml_exception \<and> readConfig y path = None) \<and>
   (loadConfig y path = Returned cfg \<longleftrightarrow> readConfig y path = Some cfg \<and>
      \<not> (real_patterns (include_pats cfg) \<and> real_patterns (exclude_pats cfg)))"
  by (auto simp: loadConfig_def validatePrecedence_def real_patterns_def Let_def split: option.splits)

text \<open>C40: The documented no-op pattern \<open>*\<close> is a no-op for the start-up check but not for
  eligibility: with an unrestricting include list and exclude list \<open>*\<close> the configuration passes
  the check and no interface at all is monitored.\<close>

theorem exclude_star_blocks_everything:
  assumes "fnmatch_laws fnm" and "include_pats cfg = [] \<or> include_pats cfg = [''*'']"
    and "exclude_pats cfg = [''*'']"
  shows "validatePrecedence cfg = None \<and> \<not> isEligible fnm cfg name"
proof -
  have "fnm ([] @ ''*'') name = prefix [] name"
    using assms(1) [unfolded fnmatch_laws_def, rule_format, of "[]" name] by (simp add: plain_def)
  with assms(2,3) show ?thesis
    by (auto simp: validatePrecedence_def isEligible_def Let_def)
qed

theorem exclude_star_blocks_everything_witness:
  "\<not> isEligible star_match (new_config\<lparr>exclude_pats := [''*'']\<rparr>) ''wlan0''"
  using exclude_star_blocks_everything [OF fnmatch_laws_star_match, of "new_config\<lparr>exclude_pats := [''*'']\<rparr>"]
  by (simp add: new_config_def)

end
