(* ===== verification/Config_Resolve.thy ===== *)
theory Config_Resolve
  imports Config_Load
begin

section \<open>Per-interface settings (config_resolve.cpp)\<close>

text \<open>
  \<open>ConfigResolver\<close>: the target, label, IPv6 target and gateway overrides of one interface, from
  its override entry or the configuration's defaults.
\<close>

definition resolveTarget :: "config \<Rightarrow> string \<Rightarrow> string" where
  "resolveTarget cfg iface =
     (case interfaces cfg iface of
        None \<Rightarrow> defaultTarget cfg
      | Some ov \<Rightarrow> (case ov_target ov of Some t \<Rightarrow> t | None \<Rightarrow> defaultTarget cfg))"

definition resolveLabel :: "config \<Rightarrow> string \<Rightarrow> string" where
  "resolveLabel cfg iface =
     (case interfaces cfg iface of
        None \<Rightarrow> iface
      | Some ov \<Rightarrow> if ov_label ov \<noteq> [] then ov_label ov else iface)"

definition resolveTarget6 :: "config \<Rightarrow> string \<Rightarrow> string" where
  "resolveTarget6 cfg iface =
     (let dflt = (case defaultTarget6 cfg of Some t \<Rightarrow> t | None \<Rightarrow> [])
      in case interfaces cfg iface of
        None \<Rightarrow> dflt
      | Some ov \<Rightarrow> (case ov_target6 ov of Some t \<Rightarrow> t | None \<Rightarrow> dflt))"

definition resolveGatewayIpOverride4 :: "config \<Rightarrow> string \<Rightarrow> string" where
  "resolveGatewayIpOverride4 cfg iface =
     (case interfaces cfg iface of
        None \<Rightarrow> []
      | Some ov \<Rightarrow> (case ov_gatewayIpOverride4 ov of Some g \<Rightarrow> g | None \<Rightarrow> []))"

definition resolveGatewayIpOverride6 :: "config \<Rightarrow> string \<Rightarrow> string" where
  "resolveGatewayIpOverride6 cfg iface =
     (case interfaces cfg iface of
        None \<Rightarrow> []
      | Some ov \<Rightarrow> (case ov_gatewayIpOverride6 ov of Some g \<Rightarrow> g | None \<Rightarrow> []))"

lemma resolveLabel_nonempty: "iface \<noteq> [] \<Longrightarrow> resolveLabel cfg iface \<noteq> []"
  by (simp add: resolveLabel_def split: option.split)


text \<open>C30: The settings a loaded configuration gives an interface are those of its last entry
  under \<open>interfaces\<close>: each key present wins over the default, a missing target falls back to
  \<open>default_target\<close>, a missing IPv6 target to \<open>default_target6\<close> or nothing, a missing or empty
  label to the interface's name, and a missing gateway override to nothing.\<close>

theorem loaded_interface_settings:
  assumes "loadConfig y path = Returned cfg" and "y_load y path = Some root"
    and "y_sub y root ''interfaces'' = Some n" and "y_defined y n"
    and "y_pairs y n = Some (its @ it # its')"
    and "y_string y (fst it) = Some name"
    and "\<forall>it \<in> set its'. y_string y (fst it) \<noteq> Some name"
    and "opt_string y (snd it) ''label'' = Some lbl"
    and "opt_string y (snd it) ''target'' = Some t" and "opt_string y (snd it) ''target6'' = Some t6"
    and "opt_string y (snd it) ''gateway_ip_override4'' = Some g4"
    and "opt_string y (snd it) ''gateway_ip_override6'' = Some g6"
  shows "resolveTarget cfg name = (case t of Some s \<Rightarrow> s | None \<Rightarrow> defaultTarget cfg) \<and>
    resolveTarget6 cfg name =
      (case t6 of Some s \<Rightarrow> s | None \<Rightarrow> (case defaultTarget6 cfg of Some s \<Rightarrow> s | None \<Rightarrow> [])) \<and>
    resolveLabel cfg name = (if lbl = None \<or> lbl = Some [] then name else the lbl) \<and>
    resolveGatewayIpOverride4 cfg name = (case g4 of Some s \<Rightarrow> s | None \<Rightarrow> []) \<and>
    resolveGatewayIpOverride6 cfg name = (case g6 of Some s \<Rightarrow> s | None \<Rightarrow> [])"
proof -
  obtain c where "add_overrides y (its @ it # its') c = Some cfg"
    using assms(1-5)
    by (auto simp: loadConfig_def readConfig_def applyInterfaceOverrides_def split: option.splits)
  then have "interfaces cfg name = parseOverride y it"
    using assms(6,7) by (rule add_overrides_last)
  then have "interfaces cfg name = Some \<lparr>ov_label = (case lbl of Some s \<Rightarrow> s | None \<Rightarrow> name),
      ov_target = t, ov_target6 = t6, ov_gatewayIpOverride4 = g4, ov_gatewayIpOverride6 = g6\<rparr>"
    by (simp add: parseOverride_def assms new_override_def)
  then show ?thesis
    by (auto simp: resolveTarget_def resolveTarget6_def resolveLabel_def Let_def
        resolveGatewayIpOverride4_def resolveGatewayIpOverride6_def split: option.split)
qed

theorem loaded_interface_settings_witness:
  "resolveTarget sample_config ''wg0'' = ''10.0.0.1'' \<and> resolveTarget6 sample_config ''wg0'' = [] \<and>
   resolveLabel sample_config ''wg0'' = ''VPN'' \<and> resolveGatewayIpOverride4 sample_config ''wg0'' = [] \<and>
   resolveGatewayIpOverride6 sample_config ''wg0'' = ''none''"
  using loaded_interface_settings [OF load_sample, where name = "''wg0''" and its' = "[]" and
      its = "[(Y_scalar ''wg0'', Y_map [(Y_scalar ''label'', Y_scalar ''Old'')])]" and
      it = "(Y_scalar ''wg0'', Y_map [(Y_scalar ''label'', Y_scalar ''VPN''),
        (Y_scalar ''target'', Y_scalar ''10.0.0.1''), (Y_scalar ''gateway_ip_override6'', Y_scalar ''none'')])"
      and root = sample_doc and lbl = "Some ''VPN''" and t = "Some ''10.0.0.1''" and ?t6.0 = None
      and ?g4.0 = None and ?g6.0 = "Some ''none''"]
  by (simp add: tree_yaml_def sample_doc_def opt_string_def sample_config_def)

end
