(* ===== verification/Watcher.thy ===== *)
theory Watcher
  imports Netlink_Watcher Process_Manager Config_Resolve
begin

section \<open>The watcher daemon (watcher.cpp, watcher_iface_state.cpp)\<close>

text \<open>
  \<open>Watcher\<close> connects the others: link events move its per-interface state machine, which starts
  and stops children; signals are read in the same loop. \<open>fnm\<close> is \<open>fnmatch\<close>, as in the
  configuration.
\<close>

subsection \<open>State\<close>

record iface_state =
  if_name :: string
  was_up :: bool

record watcher =
  w_cfg :: config
  w_configPath :: string
  w_netlink :: netlink_watcher
  w_processes :: process_manager
  w_ifaces :: "int \<rightharpoonup> iface_state"
  w_sigFd :: int
  w_shouldExit :: bool

definition new_watcher :: "config \<Rightarrow> string \<Rightarrow> watcher" where
  "new_watcher cfg path = \<lparr>w_cfg = cfg, w_configPath = path, w_netlink = new_netlink_watcher,
     w_processes = new_process_manager, w_ifaces = Map.empty, w_sigFd = -1, w_shouldExit = False\<rparr>"

subsection \<open>The interface state machine\<close>

definition watcher_stop :: "'w os \<Rightarrow> int \<Rightarrow> watcher \<times> 'w \<Rightarrow> watcher \<times> 'w" where
  "watcher_stop os ifindex ww =
     (let (pm, w) = pm_stop os ifindex (w_processes (fst ww), snd ww)
      in ((fst ww)\<lparr>w_processes := pm\<rparr>, w))"

definition startIfEligible ::
  "(string \<Rightarrow> string \<Rightarrow> bool) \<Rightarrow> 'w os \<Rightarrow> int \<Rightarrow> string \<Rightarrow> watcher \<times> 'w \<Rightarrow> watcher \<times> 'w" where
  "startIfEligible fnm os ifindex name ww =
     (let (wt, w) = ww; cfg = w_cfg wt
      in if \<not> isEligible fnm cfg name then (wt, w)
         else let (pm, w) = pm_start os ifindex name (resolveTarget cfg name) (resolveTarget6 cfg name)
                  (resolveLabel cfg name) (resolveGatewayIpOverride4 cfg name)
                  (resolveGatewayIpOverride6 cfg name) (w_processes wt, w)
              in (wt\<lparr>w_processes := pm\<rparr>, w))"

definition onChange ::
  "(string \<Rightarrow> string \<Rightarrow> bool) \<Rightarrow> 'w os \<Rightarrow> int \<Rightarrow> string \<Rightarrow> bool \<Rightarrow> watcher \<times> 'w \<Rightarrow> watcher \<times> 'w" where
  "onChange fnm os ifindex name isUp ww =
     (let (wt, w) = ww;
          state = (case w_ifaces wt ifindex of
                     Some st \<Rightarrow> st | None \<Rightarrow> \<lparr>if_name = [], was_up = False\<rparr>);
          renamed = (if_name state \<noteq> [] \<and> if_name state \<noteq> name);
          wasUp = was_up state;
          wt = wt\<lparr>w_ifaces := (w_ifaces wt)(ifindex \<mapsto> \<lparr>if_name = name, was_up = isUp\<rparr>)\<rparr>
      in if renamed \<and> wasUp then
           (let ww = watcher_stop os ifindex (wt, w)
            in if isUp then startIfEligible fnm os ifindex name ww else ww)
         else if isUp = wasUp then (wt, w)
         else if isUp then startIfEligible fnm os ifindex name (wt, w)
         else watcher_stop os ifindex (wt, w))"

definition onRemoved :: "'w os \<Rightarrow> int \<Rightarrow> watcher \<times> 'w \<Rightarrow> watcher \<times> 'w" where
  "onRemoved os ifindex ww =
     (case w_ifaces (fst ww) ifindex of
        None \<Rightarrow> ww
      | Some state \<Rightarrow>
          (let ww = (if was_up state then watcher_stop os ifindex ww else ww)
           in ((fst ww)\<lparr>w_ifaces := (w_ifaces (fst ww))(ifindex := None)\<rparr>, snd ww)))"

subsection \<open>Signals and the poll loop\<close>

definition openSignalFd :: "'w os \<Rightarrow> watcher \<times> 'w \<Rightarrow> bool \<times> watcher \<times> 'w" where
  "openSignalFd os ww =
     (let (wt, w) = ww; mask = [SIGCHLD, SIGTERM, SIGINT];
          (rc, w) = sys_sigprocmask_block os mask w
      in if rc < 0 then (False, wt, w)
         else let (fd, w) = sys_signalfd os (-1) mask (SFD_CLOEXEC + SFD_NONBLOCK) w; wt = wt\<lparr>w_sigFd := fd\<rparr>
              in if fd < 0 then (False, wt, w) else (True, wt, w))"

partial_function (option) handleSignals ::
  "'w os \<Rightarrow> watcher \<times> 'w \<Rightarrow> (watcher \<times> 'w) option" where
  "handleSignals os ww =
     (case sys_read_siginfo os (w_sigFd (fst ww)) (snd ww) of
        (None, w) \<Rightarrow> Some (fst ww, w)
      | (Some signo, w) \<Rightarrow>
          if signo = SIGCHLD then do {
            pw \<leftarrow> reapExited os (w_processes (fst ww), w);
            handleSignals os ((fst ww)\<lparr>w_processes := fst pw\<rparr>, snd pw)
          }
          else handleSignals os ((fst ww)\<lparr>w_shouldExit := True\<rparr>, w))"

text \<open>
  \<open>junk w\<close> is what the receive array holds when \<open>processPendingMessages\<close> is entered. \<open>None\<close> is a
  loop that goes on for ever, as the daemon's does until a signal stops it.
\<close>

partial_function (option) watcher_poll ::
  "('w \<Rightarrow> buf) \<Rightarrow> (string \<Rightarrow> string \<Rightarrow> bool) \<Rightarrow> 'w os \<Rightarrow> watcher \<times> 'w
   \<Rightarrow> (cpp_exn \<times> watcher \<times> 'w + watcher \<times> 'w) option" where
  "watcher_poll junk fnm os ww =
     (if w_shouldExit (fst ww) then Some (Inr ww)
      else case sys_poll os (nl_fd_of (w_netlink (fst ww))) (w_sigFd (fst ww)) (snd ww) of
        (Poll_failed eintr, w) \<Rightarrow>
          if eintr then watcher_poll junk fnm os (fst ww, w) else Some (Inr (fst ww, w))
      | (Poll_ready nl sig, w) \<Rightarrow> do {
          r \<leftarrow> (if nl then processPendingMessages os (nl_fd_of (w_netlink (fst ww)))
                          (onChange fnm os) (onRemoved os) (junk w) (fst ww, w)
               else Some (Inr (fst ww, w)));
          case r of
            Inl e \<Rightarrow> Some (Inl e)
          | Inr ww \<Rightarrow> do {
              ww \<leftarrow> (if sig then handleSignals os ww else Some ww);
              watcher_poll junk fnm os ww
            }
        })"

definition watcher_run ::
  "('w \<Rightarrow> buf) \<Rightarrow> (string \<Rightarrow> string \<Rightarrow> bool) \<Rightarrow> 'w os \<Rightarrow> watcher \<times> 'w
   \<Rightarrow> (cpp_exn \<times> watcher \<times> 'w + int \<times> watcher \<times> 'w) option" where
  "watcher_run junk fnm os ww =
     (let (wt, w) = ww;
          (ok, nw, w) = nl_open os (w_netlink wt) w;
          wt = wt\<lparr>w_netlink := nw\<rparr>
      in if \<not> ok then Some (Inr (1, wt, w))
         else let (ok, wt, w) = openSignalFd os (wt, w)
              in if \<not> ok then Some (Inr (1, wt, w))
                 else do {
                   r \<leftarrow> watcher_poll junk fnm os (wt, w);
                   case r of
                     Inl e \<Rightarrow> Some (Inl e)
                   | Inr (wt, w) \<Rightarrow>
                       (let (pm, w) = stopAll os (w_processes wt, w)
                        in Some (Inr (0, wt\<lparr>w_processes := pm\<rparr>, sys_close os (w_sigFd wt) w)))
                 })"

subsection \<open>The invariant\<close>

text \<open>What the watcher knows of the links, and which children it has.\<close>

definition links :: "watcher \<Rightarrow> int \<rightharpoonup> string \<times> bool" where
  "links wt i = map_option (\<lambda>st. (if_name st, was_up st)) (w_ifaces wt i)"

definition children :: "watcher \<times> 'w \<Rightarrow> int \<rightharpoonup> string" where
  "children ww = tracked (w_processes (fst ww), snd ww)"

definition watcher_inv ::
  "(string \<Rightarrow> string \<Rightarrow> bool) \<Rightarrow> 'w os \<Rightarrow> ('w \<Rightarrow> int set) \<Rightarrow> config \<Rightarrow> watcher \<times> 'w \<Rightarrow> bool" where
  "watcher_inv fnm os kids cfg ww \<longleftrightarrow>
     w_cfg (fst ww) = cfg \<and> pm_ok os kids (w_processes (fst ww), snd ww) \<and>
     (\<forall>i st. w_ifaces (fst ww) i = Some st \<longrightarrow> if_name st \<noteq> []) \<and>
     covered (children ww) (links (fst ww)) (isEligible fnm cfg)"

lemma links_upd [simp]:
  "links (wt\<lparr>w_ifaces := (w_ifaces wt)(i := x)\<rparr>) =
     (links wt)(i := map_option (\<lambda>st. (if_name st, was_up st)) x)"
  "links (wt\<lparr>w_processes := pm\<rparr>) = links wt"
  "links (wt\<lparr>w_shouldExit := b\<rparr>) = links wt"
  "links (wt\<lparr>w_netlink := n\<rparr>) = links wt"
  "links (wt\<lparr>w_sigFd := fd\<rparr>) = links wt"
  by (auto simp: links_def fun_eq_iff)

lemma watcher_stop_simps:
  "w_cfg (fst (watcher_stop os i ww)) = w_cfg (fst ww)"
  "w_ifaces (fst (watcher_stop os i ww)) = w_ifaces (fst ww)"
  "links (fst (watcher_stop os i ww)) = links (fst ww)"
  "(w_processes (fst (watcher_stop os i ww)), snd (watcher_stop os i ww)) =
     pm_stop os i (w_processes (fst ww), snd ww)"
  by (simp_all add: watcher_stop_def Let_def split: prod.split)

definition iface_args :: "config \<Rightarrow> string \<Rightarrow> string \<times> string \<times> string \<times> string \<times> string" where
  "iface_args cfg n = (resolveTarget cfg n, resolveTarget6 cfg n, resolveLabel cfg n,
     resolveGatewayIpOverride4 cfg n, resolveGatewayIpOverride6 cfg n)"

lemma startIfEligible_simps:
  "w_cfg (fst (startIfEligible fnm os i n ww)) = w_cfg (fst ww)"
  "w_ifaces (fst (startIfEligible fnm os i n ww)) = w_ifaces (fst ww)"
  "links (fst (startIfEligible fnm os i n ww)) = links (fst ww)"
  "(w_processes (fst (startIfEligible fnm os i n ww)), snd (startIfEligible fnm os i n ww)) =
     (if isEligible fnm (w_cfg (fst ww)) n
      then start_with os i n (iface_args (w_cfg (fst ww)) n) (w_processes (fst ww), snd ww)
      else (w_processes (fst ww), snd ww))"
  by (auto simp: startIfEligible_def start_with_def iface_args_def Let_def split: prod.split)

text \<open>
  \<open>onChange\<close> on the two parts the invariant looks at: the link table gets the new entry, and
  the process manager is left alone, stopped, started or restarted.
\<close>

definition change_effect ::
  "(string \<Rightarrow> string \<Rightarrow> bool) \<Rightarrow> 'w os \<Rightarrow> config \<Rightarrow> (string \<times> bool) option \<Rightarrow> int \<Rightarrow> string \<Rightarrow> bool
   \<Rightarrow> process_manager \<times> 'w \<Rightarrow> process_manager \<times> 'w" where
  "change_effect fnm os cfg old i n up pw =
     (let start = (\<lambda>pw. if isEligible fnm cfg n then start_with os i n (iface_args cfg n) pw else pw)
      in case old of
           Some (m, True) \<Rightarrow>
             if m \<noteq> [] \<and> m \<noteq> n then (if up then start (pm_stop os i pw) else pm_stop os i pw)
             else if up then pw else pm_stop os i pw
         | _ \<Rightarrow> if up then start pw else pw)"

lemma onChange_effect:
  "w_cfg (fst (onChange fnm os i n up ww)) = w_cfg (fst ww)"
  "w_ifaces (fst (onChange fnm os i n up ww)) =
     (w_ifaces (fst ww))(i \<mapsto> \<lparr>if_name = n, was_up = up\<rparr>)"
  "(w_processes (fst (onChange fnm os i n up ww)), snd (onChange fnm os i n up ww)) =
     change_effect fnm os (w_cfg (fst ww)) (links (fst ww) i) i n up (w_processes (fst ww), snd ww)"
proof -
  obtain wt w where ww: "ww = (wt, w)" by (rule prod.exhaust)
  note defs = onChange_def change_effect_def links_def Let_def startIfEligible_simps watcher_stop_simps
  show "w_cfg (fst (onChange fnm os i n up ww)) = w_cfg (fst ww)"
    by (cases "w_ifaces wt i") (simp_all add: ww defs split: prod.split)
  show "w_ifaces (fst (onChange fnm os i n up ww)) = (w_ifaces (fst ww))(i \<mapsto> \<lparr>if_name = n, was_up = up\<rparr>)"
    by (cases "w_ifaces wt i") (simp_all add: ww defs split: prod.split)
  show "(w_processes (fst (onChange fnm os i n up ww)), snd (onChange fnm os i n up ww)) =
     change_effect fnm os (w_cfg (fst ww)) (links (fst ww) i) i n up (w_processes (fst ww), snd ww)"
    by (cases "w_ifaces wt i") (auto simp: ww defs split: prod.split)
qed


lemma pm_ok_start_with: "pm_ok os kids pw \<Longrightarrow> pm_ok os kids (start_with os i n a pw)"
  by (rule pmt.ok_start)

lemma change_effect_ok: "pm_ok os kids pw \<Longrightarrow> pm_ok os kids (change_effect fnm os cfg old i n up pw)"
  by (auto simp: change_effect_def Let_def pm_ok_start_with pm_ok_stop split: option.split bool.split)

lemma change_effect_covered:
  assumes "covered (tracked pw) U (isEligible fnm cfg)" and "\<And>m b. U i = Some (m, b) \<Longrightarrow> m \<noteq> []"
  shows "covered (tracked (change_effect fnm os cfg (U i) i n up pw)) (U(i \<mapsto> (n, up))) (isEligible fnm cfg)"
proof (cases "\<exists>m. U i = Some (m, True)")
  case True
  then obtain m where U: "U i = Some (m, True)" and m: "m \<noteq> []" using assms(2) by blast
  show ?thesis
  proof (cases "m = n \<and> up")
    case True
    with U have "U(i \<mapsto> (n, up)) = U" by auto
    with True U m assms(1) show ?thesis by (simp add: change_effect_def)
  next
    case False
    with U m assms(1) show ?thesis
      by (auto simp: change_effect_def pmt.covered_stop pmt.covered_restart)
  qed
next
  case False
  then have "tracked pw i = None" using assms(1) by (cases "tracked pw i") (auto simp: covered_def)
  with False assms(1) show ?thesis
    by (auto simp: change_effect_def pmt.covered_start pmt.covered_skip split: option.split bool.split)
qed

lemma wanted_at:
  "wanted (U(i := u)) P i = (case u of Some (n, True) \<Rightarrow> if P n then Some n else None | _ \<Rightarrow> None)"
  by (simp add: wanted_def)

lemma change_effect_wanted:
  assumes ok: "pm_ok os kids pw \<and> fork_succeeds os"
    and T: "tracked pw = wanted U (isEligible fnm cfg)"
    and ne: "\<And>m b. U i = Some (m, b) \<Longrightarrow> m \<noteq> []"
  shows "tracked (change_effect fnm os cfg (U i) i n up pw) = wanted (U(i \<mapsto> (n, up))) (isEligible fnm cfg)"
proof (cases "\<exists>m. U i = Some (m, True)")
  case True
  then obtain m where U: "U i = Some (m, True)" and m: "m \<noteq> []" using ne by blast
  show ?thesis
  proof (cases "m = n \<and> up")
    case True
    with U have "U(i \<mapsto> (n, up)) = U" by auto
    with True U m T show ?thesis by (simp add: change_effect_def)
  next
    case False
    show ?thesis
    proof (cases "up \<and> isEligible fnm cfg n")
      case True
      with U m False pmt_total.wanted_restart [OF ok T, of n i] show ?thesis
        by (simp add: change_effect_def)
    next
      case not_start: False
      then have "wanted (U(i \<mapsto> (n, up))) (isEligible fnm cfg) i = None"
        by (simp add: wanted_at split: bool.split)
      from pmt_total.wanted_stop [OF T this] U m False not_start show ?thesis
        by (auto simp: change_effect_def)
    qed
  qed
next
  case False
  then have free: "tracked pw i = None"
    using T by (auto simp: wanted_def split: option.split bool.split)
  show ?thesis
  proof (cases "up \<and> isEligible fnm cfg n")
    case True
    with False pmt_total.wanted_start [OF ok T free, of n] show ?thesis
      by (auto simp: change_effect_def Let_def split: option.split bool.split)
  next
    case not_start: False
    then have "wanted (U(i \<mapsto> (n, up))) (isEligible fnm cfg) i = tracked pw i"
      by (simp add: wanted_at free split: bool.split)
    from pmt_total.wanted_skip [OF T this] False not_start show ?thesis
      by (auto simp: change_effect_def split: option.split bool.split)
  qed
qed

lemma watcher_inv_new:
  assumes "child_laws os kids" shows "watcher_inv fnm os kids cfg (new_watcher cfg path, w)"
  using assms
  using pm_inv_new [unfolded new_process_manager_def]
  by (simp add: watcher_inv_def new_watcher_def pm_ok_def covered_def children_def
      tracked_def new_process_manager_def)

lemma watcher_inv_onChange:
  assumes "watcher_inv fnm os kids cfg ww" and "n \<noteq> []"
  shows "watcher_inv fnm os kids cfg (onChange fnm os i n up ww)"
proof -
  have "links (fst (onChange fnm os i n up ww)) = (links (fst ww))(i \<mapsto> (n, up))"
    by (simp add: links_def [abs_def] onChange_effect fun_eq_iff)
  moreover have "m \<noteq> []" if "links (fst ww) i = Some (m, b)" for m b
    using assms(1) that by (auto simp: watcher_inv_def links_def)
  ultimately show ?thesis
    using assms change_effect_covered [of "(w_processes (fst ww), snd ww)" "links (fst ww)" fnm cfg i]
    by (auto simp: watcher_inv_def children_def onChange_effect change_effect_ok)
qed

lemma onRemoved_effect:
  "w_cfg (fst (onRemoved os i ww)) = w_cfg (fst ww)"
  "w_ifaces (fst (onRemoved os i ww)) = (w_ifaces (fst ww))(i := None)"
  "(w_processes (fst (onRemoved os i ww)), snd (onRemoved os i ww)) =
     (if \<exists>n. links (fst ww) i = Some (n, True) then pm_stop os i (w_processes (fst ww), snd ww)
      else (w_processes (fst ww), snd ww))"
  by (auto simp: onRemoved_def Let_def links_def watcher_stop_simps split: option.split)

lemma watcher_inv_onRemoved:
  assumes inv: "watcher_inv fnm os kids cfg ww"
  shows "watcher_inv fnm os kids cfg (onRemoved os i ww)"
proof -
  have l: "links (fst (onRemoved os i ww)) = (links (fst ww))(i := None)"
    by (simp add: links_def [abs_def] onRemoved_effect fun_eq_iff)
  show ?thesis
  proof (cases "\<exists>n. links (fst ww) i = Some (n, True)")
    case True
    with inv l show ?thesis
      by (simp add: watcher_inv_def children_def onRemoved_effect pm_ok_stop pmt.covered_stop)
  next
    case False
    then have "children ww i = None"
      using inv by (cases "children ww i") (auto simp: watcher_inv_def covered_def)
    with False inv l show ?thesis
      by (simp add: watcher_inv_def children_def onRemoved_effect pmt.covered_skip)
  qed
qed

lemma reap_children:
  assumes "pm_ok os kids pw" and "reapExited os pw = Some pw'"
  shows "pm_ok os kids pw'" and "tracked pw' \<subseteq>\<^sub>m tracked pw"
proof -
  obtain pw'' where "reapExited os pw = Some pw''" "pm_ok os kids pw''"
    "\<forall>i tp. m_byIfindex (fst pw'') i = Some tp \<longrightarrow> m_byIfindex (fst pw) i = Some tp"
    using reapExited_result [OF assms(1)] by blast
  with assms(2) show "pm_ok os kids pw'" and "tracked pw' \<subseteq>\<^sub>m tracked pw"
    by (auto simp: map_le_def tracked_def dom_def)
qed

lemma covered_mono: "covered T U P \<Longrightarrow> T' \<subseteq>\<^sub>m T \<Longrightarrow> covered T' U P"
  by (fastforce simp: covered_def map_le_def dom_def)

lemma watcher_inv_reap:
  assumes "watcher_inv fnm os kids cfg (wt, w)" and "reapExited os (w_processes wt, w') = Some pw"
    and "kids w' = kids w"
  shows "watcher_inv fnm os kids cfg (wt\<lparr>w_processes := fst pw\<rparr>, snd pw)"
proof -
  have "pm_ok os kids (w_processes wt, w')" using assms by (simp add: watcher_inv_def pm_ok_def)
  from reap_children [OF this assms(2)] assms(1) show ?thesis
    by (auto simp: watcher_inv_def children_def tracked_def [abs_def] intro: covered_mono)
qed


subsection \<open>Reachable states, and the loops that stay inside them\<close>

text \<open>
  What the watcher's operations make of a fresh watcher, in any order and any number; between
  them other system calls may change the world, but not its children: \<open>kids\<close> is what is known of
  them, their identifiers or more.
\<close>

inductive watcher_reachable ::
  "(string \<Rightarrow> string \<Rightarrow> bool) \<Rightarrow> 'w os \<Rightarrow> ('w \<Rightarrow> 'k) \<Rightarrow> config \<Rightarrow> watcher \<times> 'w \<Rightarrow> bool"
  for fnm os kids cfg where
  initial: "watcher_reachable fnm os kids cfg (new_watcher cfg path, w)"
| change: "watcher_reachable fnm os kids cfg ww \<Longrightarrow> n \<noteq> [] \<Longrightarrow>
    watcher_reachable fnm os kids cfg (onChange fnm os i n up ww)"
| removed: "watcher_reachable fnm os kids cfg ww \<Longrightarrow> watcher_reachable fnm os kids cfg (onRemoved os i ww)"
| reaped: "watcher_reachable fnm os kids cfg (wt, w) \<Longrightarrow> reapExited os (w_processes wt, w) = Some pw \<Longrightarrow>
    watcher_reachable fnm os kids cfg (wt\<lparr>w_processes := fst pw\<rparr>, snd pw)"
| other: "watcher_reachable fnm os kids cfg (wt, w) \<Longrightarrow> kids w' = kids w \<Longrightarrow>
    watcher_reachable fnm os kids cfg (wt\<lparr>w_netlink := nw, w_sigFd := fd, w_shouldExit := b\<rparr>, w')"

lemma reachable_world:
  "watcher_reachable fnm os kids cfg (wt, w) \<Longrightarrow> kids w' = kids w \<Longrightarrow>
   watcher_reachable fnm os kids cfg (wt, w')"
  using watcher_reachable.other [where nw = "w_netlink wt" and fd = "w_sigFd wt" and b = "w_shouldExit wt"
      and wt = wt]
  by simp

lemma reachable_exit:
  "watcher_reachable fnm os kids cfg (wt, w) \<Longrightarrow> kids w' = kids w \<Longrightarrow>
   watcher_reachable fnm os kids cfg (wt\<lparr>w_shouldExit := b\<rparr>, w')"
  using watcher_reachable.other [where nw = "w_netlink wt" and fd = "w_sigFd wt" and b = b and wt = wt]
  by simp

lemma watcher_inv_other:
  "watcher_inv fnm os kids cfg (wt, w) \<Longrightarrow> kids w' = kids w \<Longrightarrow>
   watcher_inv fnm os kids cfg (wt\<lparr>w_netlink := nw, w_sigFd := fd, w_shouldExit := b\<rparr>, w')"
  by (simp add: watcher_inv_def pm_ok_def children_def tracked_def [abs_def] links_def [abs_def])

lemma watcher_reachable_inv:
  assumes "child_laws os kids"
  shows "watcher_reachable fnm os kids cfg ww \<Longrightarrow> watcher_inv fnm os kids cfg ww"
proof (induction rule: watcher_reachable.induct)
  case (reaped wt w pw)
  from watcher_inv_reap [OF reaped.IH reaped.hyps(2) refl] show ?case .
qed (auto intro: watcher_inv_new [OF assms] watcher_inv_onChange watcher_inv_onRemoved watcher_inv_other)

text \<open>The system calls of the loops that start or reap no child leave the children alone.\<close>

definition quiet_laws :: "'w os \<Rightarrow> ('w \<Rightarrow> 'k) \<Rightarrow> bool" where
  "quiet_laws os kids \<longleftrightarrow>
     (\<forall>fd b w. kids (snd (sys_recv os fd b w)) = kids w) \<and>
     (\<forall>a b w. kids (snd (sys_poll os a b w)) = kids w) \<and>
     (\<forall>fd w. kids (snd (sys_read_siginfo os fd w)) = kids w) \<and>
     (\<forall>d t p w. kids (snd (sys_socket os d t p w)) = kids w) \<and>
     (\<forall>fd a w. kids (snd (sys_bind os fd a w)) = kids w) \<and>
     (\<forall>fd bs a w. kids (snd (sys_sendto os fd bs a w)) = kids w) \<and>
     (\<forall>fd w. kids (sys_close os fd w) = kids w) \<and>
     (\<forall>m w. kids (snd (sys_sigprocmask_block os m w)) = kids w) \<and>
     (\<forall>fd m fl w. kids (snd (sys_signalfd os fd m fl w)) = kids w)"

lemma quiet_recv: "quiet_laws os kids \<Longrightarrow> sys_recv os fd b w = (r, w') \<Longrightarrow> kids w' = kids w"
  unfolding quiet_laws_def by (metis snd_conv)

lemma quiet_poll: "quiet_laws os kids \<Longrightarrow> sys_poll os a b w = (r, w') \<Longrightarrow> kids w' = kids w"
  unfolding quiet_laws_def by (metis snd_conv)

lemma quiet_read: "quiet_laws os kids \<Longrightarrow> sys_read_siginfo os fd w = (r, w') \<Longrightarrow> kids w' = kids w"
  unfolding quiet_laws_def by (metis snd_conv)

text \<open>Whatever the callbacks keep, the message loop keeps, for every content of the array.\<close>

lemma handle_one_preserves:
  assumes "handle_one cap m onC onR nlh l ty s = Some (Inr s')" and "P s"
    and "\<And>i n up s. n \<noteq> [] \<Longrightarrow> P s \<Longrightarrow> P (onC i n up s)" and "\<And>i s. P s \<Longrightarrow> P (onR i s)"
  shows "P s'"
proof (cases "extractIfName cap m nlh l")
  case (Some r)
  with assms show ?thesis by (cases r) (auto simp: handle_one_def split: if_splits)
qed (use assms in \<open>auto simp: handle_one_def split: if_splits\<close>)

lemma handleMessage_preserves:
  assumes ret: "handleMessage cap m onC onR nlh len s = Some r"
    and onC: "\<And>i n up s. n \<noteq> [] \<Longrightarrow> P s \<Longrightarrow> P (onC i n up s)"
    and onR: "\<And>i s. P s \<Longrightarrow> P (onR i s)"
  shows "P s \<longrightarrow> (\<forall>s'. r = Inr s' \<longrightarrow> P s')"
proof -
  have "onC = onC \<longrightarrow> onR = onR \<longrightarrow> P s \<longrightarrow> (\<forall>s'. r = Inr s' \<longrightarrow> P s')"
  proof (rule handleMessage.raw_induct [where P = "\<lambda>cap m c d nlh len s r.
        c = onC \<longrightarrow> d = onR \<longrightarrow> P s \<longrightarrow> (\<forall>s'. r = Inr s' \<longrightarrow> P s')", OF _ ret], goal_cases)
    case (1 f cap m c d nlh len s r)
    show ?case
    proof (intro impI allI)
      fix s' assume cd: "c = onC" "d = onR" and P: "P s" and r: "r = Inr s'"
      show "P s'"
      proof (cases "r = Inr s")
        case True
        with P r show ?thesis by simp
      next
        case False
        then obtain l ty q off' len' where one: "handle_one cap m c d nlh l ty s = Some q"
          and go: "(case q of Inl e \<Rightarrow> Some (Inl e) | Inr s1 \<Rightarrow>
            f cap m c d off' len' s1) = Some r"
          using "1"(2) r by (auto split: if_splits)
        from go r obtain s1 where one: "handle_one cap m c d nlh l ty s = Some (Inr s1)"
          and rest: "f cap m c d off' len' s1 = Some r"
          using one by (cases q) auto
        have "P s1" using one P onC onR unfolding cd by (rule handle_one_preserves)
        with "1"(1) [OF rest] cd r show ?thesis by blast
      qed
    qed
  qed
  then show ?thesis by simp
qed

lemma processPendingMessages_preserves:
  assumes ret: "processPendingMessages os fd onC onR m sw = Some r"
    and onC: "\<And>i n up sw. n \<noteq> [] \<Longrightarrow> P sw \<Longrightarrow> P (onC i n up sw)"
    and onR: "\<And>i sw. P sw \<Longrightarrow> P (onR i sw)"
    and recv: "\<And>s w x w'. P (s, w) \<Longrightarrow> sys_recv os fd True w = (x, w') \<Longrightarrow> P (s, w')"
  shows "P sw \<longrightarrow> (\<forall>sw'. r = Inr sw' \<longrightarrow> P sw')"
proof -
  have "os = os \<longrightarrow> fd = fd \<longrightarrow> onC = onC \<longrightarrow> onR = onR \<longrightarrow> P sw \<longrightarrow> (\<forall>sw'. r = Inr sw' \<longrightarrow> P sw')"
  proof (rule processPendingMessages.raw_induct [where P = "\<lambda>os' fd' c d m sw r.
        os' = os \<longrightarrow> fd' = fd \<longrightarrow> c = onC \<longrightarrow> d = onR \<longrightarrow> P sw \<longrightarrow> (\<forall>sw'. r = Inr sw' \<longrightarrow> P sw')", OF _ ret],
      goal_cases)
    case (1 f os' fd' c d m sw r)
    show ?case
    proof (intro impI allI)
      fix sw' assume eq: "os' = os" "fd' = fd" "c = onC" "d = onR" and P: "P sw" and r: "r = Inr sw'"
      obtain x w where x: "sys_recv os fd True (snd sw) = (x, w)" by fastforce
      have P': "P (fst sw, w)" using recv [of "fst sw" "snd sw"] P x by simp
      show "P sw'"
      proof (cases "x = None \<or> x = Some []")
        case True
        with "1"(2) x P' eq r show ?thesis by auto
      next
        case False
        then obtain bs where bs: "x = Some bs" "bs \<noteq> []" by auto
        obtain n m' where nm: "received 8192 bs m = (n, m')" by fastforce
        from "1"(2) obtain q where q: "handleMessage 8192 m' onC onR 0 n (fst sw, w) = Some q"
          and rest: "(case q of Inl e \<Rightarrow> Some (Inl e) | Inr sw1 \<Rightarrow> f os fd onC onR m' sw1) = Some r"
          using x bs nm eq by auto
        from rest r obtain sw1 where sw1: "q = Inr sw1" "f os fd onC onR m' sw1 = Some r"
          by (cases q) auto
        have "P sw1" using handleMessage_preserves [where P = P, OF q onC onR] P' sw1(1) by blast
        with "1"(1) [OF sw1(2)] r show ?thesis by blast
      qed
    qed
  qed
  then show ?thesis by simp
qed

text \<open>For a loop that returns, as a rule.\<close>

lemma processPendingMessages_keeps:
  assumes "processPendingMessages os fd onC onR m sw = Some (Inr sw')" and "P sw"
    and "\<And>i n up sw. n \<noteq> [] \<Longrightarrow> P sw \<Longrightarrow> P (onC i n up sw)" and "\<And>i sw. P sw \<Longrightarrow> P (onR i sw)"
    and "\<And>s w x w'. P (s, w) \<Longrightarrow> sys_recv os fd True w = (x, w') \<Longrightarrow> P (s, w')"
  shows "P sw'"
  using processPendingMessages_preserves [where P = P, OF assms(1,3,4,5)] assms(2) by simp

text \<open>
  The two loops by induction: one rule per way a round can go. Whatever holds at the end of a loop
  and is carried back over each round holds where the loop was entered.
\<close>

lemma handleSignals_induct [consumes 1, case_names drained child stop]:
  assumes ret: "handleSignals os ww = Some ww'"
    and drained: "\<And>wt w w'. sys_read_siginfo os (w_sigFd wt) w = (None, w') \<Longrightarrow> P (wt, w) (wt, w')"
    and child: "\<And>wt w w1 pw ww'. sys_read_siginfo os (w_sigFd wt) w = (Some SIGCHLD, w1) \<Longrightarrow>
      reapExited os (w_processes wt, w1) = Some pw \<Longrightarrow>
      P (wt\<lparr>w_processes := fst pw\<rparr>, snd pw) ww' \<Longrightarrow> P (wt, w) ww'"
    and stop: "\<And>wt w signo w1 ww'. sys_read_siginfo os (w_sigFd wt) w = (Some signo, w1) \<Longrightarrow>
      signo \<noteq> SIGCHLD \<Longrightarrow> P (wt\<lparr>w_shouldExit := True\<rparr>, w1) ww' \<Longrightarrow> P (wt, w) ww'"
  shows "P ww ww'"
proof -
  have "os = os \<longrightarrow> P ww ww'"
  proof (rule handleSignals.raw_induct [where P = "\<lambda>os' ww ww'. os' = os \<longrightarrow> P ww ww'", OF _ ret], goal_cases)
    case (1 f os' ww ww')
    obtain wt w where ww: "ww = (wt, w)" by (cases ww)
    obtain x w1 where x: "sys_read_siginfo os (w_sigFd wt) w = (x, w1)" by (rule prod.exhaust)
    show ?case
    proof (intro impI)
      assume os: "os' = os"
      note step = "1"(2) [unfolded os ww fst_conv snd_conv x prod.case] and IH = "1"(1) [of os, simplified]
      consider "x = None" | "x = Some SIGCHLD" | signo where "x = Some signo" "signo \<noteq> SIGCHLD" by (cases x) auto
      then show "P ww ww'"
      proof cases
        case 1
        with step x ww drained show ?thesis by auto
      next
        case 2
        with step obtain pw where pw: "reapExited os (w_processes wt, w1) = Some pw"
          and "f os (wt\<lparr>w_processes := fst pw\<rparr>, snd pw) = Some ww'" by auto
        from child [OF x [unfolded 2] pw IH [OF this(2)]] ww show ?thesis by simp
      next
        case (3 signo)
        with step have "f os (wt\<lparr>w_shouldExit := True\<rparr>, w1) = Some ww'" by simp
        from stop [OF x [unfolded 3(1)] 3(2) IH [OF this]] ww show ?thesis by simp
      qed
    qed
  qed
  then show ?thesis by simp
qed

lemma watcher_poll_induct [consumes 1, case_names asked failed interrupted threw round]:
  assumes ret: "watcher_poll junk fnm os ww = Some r"
    and asked: "\<And>wt w. w_shouldExit wt \<Longrightarrow> P (wt, w) (Inr (wt, w))"
    and failed: "\<And>wt w w1. \<not> w_shouldExit wt \<Longrightarrow>
      sys_poll os (nl_fd_of (w_netlink wt)) (w_sigFd wt) w = (Poll_failed False, w1) \<Longrightarrow> P (wt, w) (Inr (wt, w1))"
    and interrupted: "\<And>wt w w1 r. \<not> w_shouldExit wt \<Longrightarrow>
      sys_poll os (nl_fd_of (w_netlink wt)) (w_sigFd wt) w = (Poll_failed True, w1) \<Longrightarrow> P (wt, w1) r \<Longrightarrow> P (wt, w) r"
    and threw: "\<And>wt w e. P (wt, w) (Inl e)"
    and round: "\<And>wt w nl sig w1 ww1 ww2 r. \<not> w_shouldExit wt \<Longrightarrow>
      sys_poll os (nl_fd_of (w_netlink wt)) (w_sigFd wt) w = (Poll_ready nl sig, w1) \<Longrightarrow>
      (if nl then processPendingMessages os (nl_fd_of (w_netlink wt)) (onChange fnm os) (onRemoved os) (junk w1) (wt, w1)
       else Some (Inr (wt, w1))) = Some (Inr ww1) \<Longrightarrow>
      (if sig then handleSignals os ww1 else Some ww1) = Some ww2 \<Longrightarrow> P ww2 r \<Longrightarrow> P (wt, w) r"
  shows "P ww r"
proof -
  have "junk = junk \<longrightarrow> fnm = fnm \<longrightarrow> os = os \<longrightarrow> P ww r"
  proof (rule watcher_poll.raw_induct [where P = "\<lambda>j fn os' ww r. j = junk \<longrightarrow> fn = fnm \<longrightarrow> os' = os \<longrightarrow> P ww r",
      OF _ ret], goal_cases)
    case (1 f j fn os' ww r)
    obtain wt w where ww: "ww = (wt, w)" by (cases ww)
    obtain x w1 where x: "sys_poll os (nl_fd_of (w_netlink wt)) (w_sigFd wt) w = (x, w1)" by (rule prod.exhaust)
    show ?case
    proof (intro impI)
      assume eq: "j = junk" "fn = fnm" "os' = os"
      note step = "1"(2) [unfolded eq ww fst_conv snd_conv] and IH = "1"(1) [of junk fnm os, simplified]
      show "P ww r"
      proof (cases "w_shouldExit wt")
        case True
        with step ww asked show ?thesis by auto
      next
        case go: False
        show ?thesis
        proof (cases x)
          case (Poll_failed eintr)
          with step go x ww IH [of "(wt, w1)" r] failed interrupted show ?thesis by (auto split: if_splits)
        next
          case (Poll_ready nl sig)
          from step obtain r1 where
            r1: "(if nl then processPendingMessages os (nl_fd_of (w_netlink wt)) (onChange fnm os) (onRemoved os) (junk w1) (wt, w1)
                  else Some (Inr (wt, w1))) = Some r1"
            and rest: "(case r1 of Inl e \<Rightarrow> Some (Inl e) | Inr ww \<Rightarrow>
                (if sig then handleSignals os ww else Some ww) \<bind> f junk fnm os) = Some r"
            using go x Poll_ready by auto
          show ?thesis
          proof (cases r1)
            case (Inl e)
            with rest threw [of wt w e] ww show ?thesis by simp
          next
            case (Inr ww1)
            with rest obtain ww2 where ww2: "(if sig then handleSignals os ww1 else Some ww1) = Some ww2"
              and rest: "f junk fnm os ww2 = Some r" by auto
            from round [OF go x [unfolded Poll_ready] r1 [unfolded Inr] ww2 IH [OF rest]] ww show ?thesis by simp
          qed
        qed
      qed
    qed
  qed
  then show ?thesis by simp
qed

lemma handleSignals_reachable:
  assumes "handleSignals os ww = Some ww'" and q: "quiet_laws os kids"
  shows "watcher_reachable fnm os kids cfg ww \<Longrightarrow> watcher_reachable fnm os kids cfg ww'"
  using assms(1)
proof (induction rule: handleSignals_induct)
  case (drained wt w w')
  from reachable_world [OF drained.prems quiet_read [OF q drained.hyps]] show ?case .
next
  case (child wt w w1 pw ww')
  from watcher_reachable.reaped [OF reachable_world [OF child.prems quiet_read [OF q child.hyps(1)]] child.hyps(2)]
  show ?case by (rule child.IH)
next
  case (stop wt w signo w1 ww')
  from reachable_exit [OF stop.prems quiet_read [OF q stop.hyps(1)]] show ?case by (rule stop.IH)
qed

lemma processPendingMessages_reachable:
  assumes "processPendingMessages os fd (onChange fnm os) (onRemoved os) m sw = Some (Inr sw')" and q: "quiet_laws os kids"
    and "watcher_reachable fnm os kids cfg sw"
  shows "watcher_reachable fnm os kids cfg sw'"
proof -
  let ?R = "watcher_reachable fnm os kids cfg"
  show ?thesis
  proof (rule processPendingMessages_keeps [where P = ?R, OF assms(1,3)])
    fix s w x w' fd assume "?R (s, w)" and "sys_recv os fd True w = (x, w')"
    then show "?R (s, w')" using quiet_recv [OF q] by (blast intro: reachable_world [of fnm os kids cfg s w w'])
  qed (rule watcher_reachable.change watcher_reachable.removed; assumption)+
qed

lemma watcher_poll_reachable:
  assumes "watcher_poll junk fnm os ww = Some r" and q: "quiet_laws os kids"
  shows "watcher_reachable fnm os kids cfg ww \<Longrightarrow> r = Inr ww' \<Longrightarrow> watcher_reachable fnm os kids cfg ww'"
  using assms(1)
proof (induction rule: watcher_poll_induct)
  case (failed wt w w1)
  with reachable_world quiet_poll [OF q] show ?case by fastforce
next
  case (interrupted wt w w1 r)
  from interrupted.IH [OF reachable_world [OF interrupted.prems(1) quiet_poll [OF q interrupted.hyps(2)]] interrupted.prems(2)]
  show ?case .
next
  case (round wt w nl sig w1 ww1 ww2 r)
  have "watcher_reachable fnm os kids cfg (wt, w1)"
    using reachable_world [OF round.prems(1) quiet_poll [OF q round.hyps(2)]] .
  with round.hyps(3) processPendingMessages_reachable [OF _ q] have "watcher_reachable fnm os kids cfg ww1"
    by (cases nl) auto
  with round.hyps(4) handleSignals_reachable [OF _ q] have "watcher_reachable fnm os kids cfg ww2"
    by (cases sig) auto
  from round.IH [OF this round.prems(2)] show ?case .
qed simp_all

subsection \<open>Properties\<close>

text \<open>In every reachable state each tracked child belongs to an interface that, by the last
  link event, is operationally up, has the name the child was started with, and is eligible
  under the configuration: a tray never stays tracked for an interface that went down, was
  removed, was renamed away or is excluded.\<close>

lemma tracked_only_when_up_and_eligible:
  assumes "child_laws os kids" and "watcher_reachable fnm os kids cfg ww"
    and "m_byIfindex (w_processes (fst ww)) i = Some tp"
  shows "w_ifaces (fst ww) i = Some \<lparr>if_name = tp_iface tp, was_up = True\<rparr> \<and>
    isEligible fnm cfg (tp_iface tp)"
proof -
  have "covered (children ww) (links (fst ww)) (isEligible fnm cfg)"
    using watcher_reachable_inv [OF assms(1,2)] by (simp add: watcher_inv_def)
  moreover have "children ww i = Some (tp_iface tp)"
    using assms(3) by (simp add: children_def tracked_def)
  ultimately have "links (fst ww) i = Some (tp_iface tp, True) \<and> isEligible fnm cfg (tp_iface tp)"
    unfolding covered_def by blast
  then show ?thesis by (auto simp: links_def intro!: iface_state.equality)
qed

lemma sample_up:
  "onChange star_match list_os 3 ''wlan0'' True (new_watcher sample_config [], []) =
   ((new_watcher sample_config [])\<lparr>w_processes :=
      \<lparr>m_byIfindex = [3 \<mapsto> \<lparr>tp_pid = 1, tp_iface = ''wlan0''\<rparr>], m_ifindexByPid = [(1, 3)]\<rparr>,
      w_ifaces := [3 \<mapsto> \<lparr>if_name = ''wlan0'', was_up = True\<rparr>]\<rparr>, [1])"
  by (simp add: onChange_def new_watcher_def startIfEligible_def isEligible_def sample_config_def
      pm_start_def list_os_def new_process_manager_def isRunning_def)

lemma tracked_only_when_up_and_eligible_witness:
  "isEligible star_match sample_config ''wlan0''"
proof -
  let ?ww = "onChange star_match list_os 3 ''wlan0'' True (new_watcher sample_config [], [])"
  have R: "watcher_reachable star_match list_os list_kids sample_config ?ww"
    by (rule watcher_reachable.change [OF watcher_reachable.initial]) simp
  have "m_byIfindex (w_processes (fst ?ww)) 3 = Some \<lparr>tp_pid = 1, tp_iface = ''wlan0''\<rparr>"
    unfolding sample_up by simp
  from tracked_only_when_up_and_eligible [OF list_os_child_laws R this] show ?thesis by simp
qed

text \<open>
  The specification of the watcher: the links after a list of events, with the name and state
  each was last reported with.
\<close>

fun link_table :: "link_event list \<Rightarrow> (int \<rightharpoonup> string \<times> bool) \<Rightarrow> int \<rightharpoonup> string \<times> bool" where
  "link_table [] U = U"
| "link_table (Link_change i n up # es) U = link_table es (U(i \<mapsto> (n, up)))"
| "link_table (Link_removed i # es) U = link_table es (U(i := None))"

fun named_event :: "link_event \<Rightarrow> bool" where
  "named_event (Link_change i n up) = (n \<noteq> [])"
| "named_event (Link_removed i) = True"

lemma wanted_remove_down:
  "tracked pw = wanted U P \<Longrightarrow> \<nexists>n. U i = Some (n, True) \<Longrightarrow> tracked pw = wanted (U(i := None)) P"
  by (auto simp: wanted_def fun_eq_iff split: option.split bool.split)

lemma onChange_refines:
  assumes inv: "watcher_inv fnm os kids cfg ww" and "fork_succeeds os"
    and T: "children ww = wanted (links (fst ww)) (isEligible fnm cfg)"
  shows "children (onChange fnm os i n up ww) = wanted ((links (fst ww))(i \<mapsto> (n, up))) (isEligible fnm cfg)"
proof -
  have ok: "pm_ok os kids (w_processes (fst ww), snd ww) \<and> fork_succeeds os"
    using inv assms(2) by (simp add: watcher_inv_def)
  have "m \<noteq> []" if "links (fst ww) i = Some (m, b)" for m b
    using inv that by (auto simp: watcher_inv_def links_def)
  with change_effect_wanted [OF ok, of "links (fst ww)" fnm cfg i n up] T inv show ?thesis
    by (simp add: children_def onChange_effect watcher_inv_def)
qed

lemma onRemoved_refines:
  assumes T: "children ww = wanted (links (fst ww)) P"
  shows "children (onRemoved os i ww) = wanted ((links (fst ww))(i := None)) P"
proof (cases "\<exists>n. links (fst ww) i = Some (n, True)")
  case True
  with pmt_total.wanted_stop [of "(w_processes (fst ww), snd ww)" "links (fst ww)" _ i None os] T
  show ?thesis by (simp add: children_def onRemoved_effect wanted_at)
next
  case False
  with wanted_remove_down [OF T [unfolded children_def] False] show ?thesis
    by (simp add: children_def onRemoved_effect)
qed

lemma events_refine:
  assumes "watcher_inv fnm os kids cfg ww" and "fork_succeeds os"
    and "children ww = wanted (links (fst ww)) (isEligible fnm cfg)" and "list_all named_event es"
  shows "children (fold (apply_event (onChange fnm os) (onRemoved os)) es ww) =
      wanted (link_table es (links (fst ww))) (isEligible fnm cfg)"
  using assms
proof (induction es arbitrary: ww)
  case (Cons e es)
  note inv = Cons.prems(1) and T = Cons.prems(3)
  have es: "list_all named_event es" using Cons.prems(4) by simp
  show ?case
  proof (cases e)
    case (Link_change i n up)
    let ?ww = "onChange fnm os i n up ww"
    have l: "links (fst ?ww) = (links (fst ww))(i \<mapsto> (n, up))"
      by (simp add: links_def [abs_def] onChange_effect fun_eq_iff)
    have "watcher_inv fnm os kids cfg ?ww"
      using inv Cons.prems(4) Link_change by (simp add: watcher_inv_onChange)
    then have "children (fold (apply_event (onChange fnm os) (onRemoved os)) es ?ww) =
        wanted (link_table es ((links (fst ww))(i \<mapsto> (n, up)))) (isEligible fnm cfg)"
      using Cons.IH [of ?ww] onChange_refines [OF inv Cons.prems(2) T] Cons.prems(2) es unfolding l by blast
    then show ?thesis by (simp add: Link_change)
  next
    case (Link_removed i)
    let ?ww = "onRemoved os i ww"
    have l: "links (fst ?ww) = (links (fst ww))(i := None)"
      by (simp add: links_def [abs_def] onRemoved_effect fun_eq_iff)
    have "children (fold (apply_event (onChange fnm os) (onRemoved os)) es ?ww) =
        wanted (link_table es ((links (fst ww))(i := None))) (isEligible fnm cfg)"
      using Cons.IH [of ?ww] watcher_inv_onRemoved [OF inv] onRemoved_refines [OF T] Cons.prems(2) es
      unfolding l by blast
    then show ?thesis by (simp add: Link_removed)
  qed
qed simp

text \<open>The watcher refines its specification: as long as forks succeed and no child exits by
  itself, after any sequence of link events a fresh watcher tracks exactly one child for each
  interface that is up and eligible, under the interface's present name, and none for any
  other.\<close>

lemma watcher_refines_link_table:
  assumes "child_laws os kids" and "fork_succeeds os" and "list_all named_event es"
  shows "children (fold (apply_event (onChange fnm os) (onRemoved os)) es (new_watcher cfg path, w)) =
    wanted (link_table es Map.empty) (isEligible fnm cfg)"
proof -
  have "links (new_watcher cfg path) = Map.empty" by (simp add: links_def [abs_def] new_watcher_def)
  moreover have "children (new_watcher cfg path, w) = wanted Map.empty (isEligible fnm cfg)"
    by (simp add: children_def tracked_def [abs_def] new_watcher_def new_process_manager_def
        wanted_def [abs_def])
  ultimately show ?thesis
    using events_refine [OF watcher_inv_new [OF assms(1)] assms(2) _ assms(3), of cfg path w fnm]
    by simp
qed

lemma list_os_fork_succeeds: "fork_succeeds list_os"
  using foldr_max_ge(2) by (auto simp: fork_succeeds_def list_os_def Let_def add_nonneg_pos)

lemma watcher_refines_link_table_witness:
  "children (fold (apply_event (onChange star_match list_os) (onRemoved list_os))
     [Link_change 3 ''wlan0'' True, Link_change 4 ''docker0'' True, Link_change 3 ''wifi'' True]
     (new_watcher sample_config [], [])) = [3 \<mapsto> ''wifi'']"
  using watcher_refines_link_table [OF list_os_child_laws list_os_fork_succeeds,
      of "[Link_change 3 ''wlan0'' True, Link_change 4 ''docker0'' True, Link_change 3 ''wifi'' True]"
        star_match sample_config "[]" "[]"]
  by (auto simp: wanted_def isEligible_def sample_config_def fun_eq_iff)

text \<open>Reporting a link again in the state it already has starts, stops and signals nothing:
  the second of two equal reports leaves the whole watcher and the world as they are.\<close>

lemma onChange_idempotent:
  "onChange fnm os i n up (onChange fnm os i n up ww) = onChange fnm os i n up ww"
proof -
  obtain wt w where ww: "onChange fnm os i n up ww = (wt, w)" by fastforce
  have st: "w_ifaces wt i = Some \<lparr>if_name = n, was_up = up\<rparr>"
    using onChange_effect(2) [of fnm os i n up ww] ww by simp
  then have "wt\<lparr>w_ifaces := (w_ifaces wt)(i \<mapsto> \<lparr>if_name = n, was_up = up\<rparr>)\<rparr> = wt"
    by (simp add: fun_upd_idem)
  with st show ?thesis unfolding ww by (simp add: onChange_def Let_def)
qed

end
