(* ===== verification/Watcher_Daemon.thy ===== *)
theory Watcher_Daemon
  imports Watcher
begin

section \<open>The daemon as a whole (watcher.cpp)\<close>

text \<open>
  From the bytes on the netlink socket to the children, and from the signals to the end of the
  process: what the parts of the watcher do together.
\<close>

subsection \<open>From datagrams to children\<close>

lemma event_of_named: "list_all named_event (event_of f)"
  by (cases f) (auto split: sum.split)

lemma events_of_named: "list_all named_event (concat (map event_of fs))"
  using event_of_named by (induction fs) auto

lemma links_onChange: "links (fst (onChange fnm os i n up ww)) = (links (fst ww))(i \<mapsto> (n, up))"
  by (simp add: links_def [abs_def] onChange_effect fun_eq_iff)

lemma links_onRemoved: "links (fst (onRemoved os i ww)) = (links (fst ww))(i := None)"
  by (simp add: links_def [abs_def] onRemoved_effect fun_eq_iff)

lemma events_links:
  "links (fst (fold (apply_event (onChange fnm os) (onRemoved os)) es ww)) = link_table es (links (fst ww))"
proof (induction es arbitrary: ww)
  case (Cons e es)
  then show ?case by (cases e) (simp_all add: links_onChange links_onRemoved fun_upd_def)
qed simp

lemma events_inv:
  "watcher_inv fnm os kids cfg ww \<Longrightarrow> list_all named_event es \<Longrightarrow>
   watcher_inv fnm os kids cfg (fold (apply_event (onChange fnm os) (onRemoved os)) es ww)"
proof (induction es arbitrary: ww)
  case (Cons e es)
  then show ?case by (cases e) (simp_all add: watcher_inv_onChange watcher_inv_onRemoved)
qed simp

lemma link_table_append: "link_table (es @ es') U = link_table es' (link_table es U)"
  by (induction es U rule: link_table.induct) (simp_all add: fun_upd_def)

lemma watcher_inv_world:
  "watcher_inv fnm os kids cfg (wt, w) \<Longrightarrow> kids w' = kids w \<Longrightarrow> watcher_inv fnm os kids cfg (wt, w')"
  using watcher_inv_other [where nw = "w_netlink wt" and fd = "w_sigFd wt" and b = "w_shouldExit wt" and wt = wt]
  by simp

lemma children_world: "children (wt, w) = children (wt, w')"
  by (simp add: children_def tracked_def [abs_def])

lemma delivers_refine:
  assumes "quiet_laws os kids" and "fork_succeeds os"
  shows "delivers os fd (onChange fnm os) (onRemoved os) fss sw sw' \<Longrightarrow>
    watcher_inv fnm os kids cfg sw \<Longrightarrow> children sw = wanted (links (fst sw)) (isEligible fnm cfg) \<Longrightarrow>
    children sw' = wanted (link_table (concat (map event_of (concat fss))) (links (fst sw))) (isEligible fnm cfg)"
proof (induction rule: delivers.induct)
  case (nothing w w' s)
  then show ?case using children_world [of s w' w] by simp
next
  case (batch w fs w1 fss s sw')
  let ?es = "concat (map event_of fs)"
  let ?ww = "fold (apply_event (onChange fnm os) (onRemoved os)) ?es (s, w1)"
  have inv: "watcher_inv fnm os kids cfg (s, w1)"
    using batch.prems(1) quiet_recv [OF assms(1) batch.hyps(1)] by (rule watcher_inv_world)
  have ch: "children (s, w1) = wanted (links (fst (s, w1))) (isEligible fnm cfg)"
    using batch.prems(2) children_world [of s w1 w] by simp
  have "children ?ww = wanted (links (fst ?ww)) (isEligible fnm cfg)"
    using events_refine [OF inv assms(2) ch events_of_named] by (simp add: events_links)
  from batch.IH [OF events_inv [OF inv events_of_named] this] show ?case
    by (simp add: events_links link_table_append)
qed

subsection \<open>What ends the loop\<close>

text \<open>
  The signals that ask for the end are those that are not \<open>SIGCHLD\<close>; on a platform that delivers
  none of them, and whose \<open>poll\<close> fails with \<open>EINTR\<close> only, nothing sets \<open>m_shouldExit\<close>.
\<close>

definition undisturbed :: "'w os \<Rightarrow> bool" where
  "undisturbed os \<longleftrightarrow>
     (\<forall>a b w. fst (sys_poll os a b w) \<noteq> Poll_failed False) \<and>
     (\<forall>fd w. fst (sys_read_siginfo os fd w) \<in> {None, Some SIGCHLD})"

lemma undisturbed_read:
  "undisturbed os \<Longrightarrow> sys_read_siginfo os fd w = (Some signo, w') \<Longrightarrow> signo = SIGCHLD"
  unfolding undisturbed_def by (metis fst_conv insertE option.distinct(1) option.inject singletonD)

lemma handleSignals_exit:
  assumes "handleSignals os ww = Some ww'" and "undisturbed os"
  shows "\<not> w_shouldExit (fst ww) \<Longrightarrow> \<not> w_shouldExit (fst ww')"
  using assms(1) by (induction rule: handleSignals_induct) (use undisturbed_read [OF assms(2)] in auto)

lemma callbacks_exit [simp]:
  "w_shouldExit (fst (watcher_stop os i ww)) = w_shouldExit (fst ww)"
  "w_shouldExit (fst (startIfEligible fnm os i n ww)) = w_shouldExit (fst ww)"
  by (simp_all add: watcher_stop_def startIfEligible_def Let_def split: prod.split)

lemma onChange_exit [simp]: "w_shouldExit (fst (onChange fnm os i n up ww)) = w_shouldExit (fst ww)"
  by (simp add: onChange_def Let_def split: prod.split)

lemma onRemoved_exit [simp]: "w_shouldExit (fst (onRemoved os i ww)) = w_shouldExit (fst ww)"
  by (simp add: onRemoved_def Let_def split: option.split)

lemma processPendingMessages_exit:
  assumes "processPendingMessages os fd (onChange fnm os) (onRemoved os) m sw = Some (Inr sw')"
  shows "w_shouldExit (fst sw') = w_shouldExit (fst sw)"
  by (rule processPendingMessages_keeps [where P = "\<lambda>s. w_shouldExit (fst s) = w_shouldExit (fst sw)", OF assms])
    simp_all

lemma watcher_poll_undisturbed:
  assumes "watcher_poll junk fnm os ww = Some r" and u: "undisturbed os"
  shows "\<not> w_shouldExit (fst ww) \<Longrightarrow> isl r"
  using assms(1)
proof (induction rule: watcher_poll_induct)
  case (failed wt w w1)
  with u show ?case unfolding undisturbed_def by (metis fst_conv)
next
  case (round wt w nl sig w1 ww1 ww2 r)
  then have "\<not> w_shouldExit (fst ww1)" using processPendingMessages_exit by (cases nl) fastforce+
  with round.hyps(4) handleSignals_exit [OF _ u] have "\<not> w_shouldExit (fst ww2)" by (cases sig) auto
  then show ?case by (rule round.IH)
qed simp_all

subsection \<open>The end\<close>

text \<open>A pid that \<open>stopAll\<close> has taken out of the table is no longer a child.\<close>

lemma wait_all_reaped:
  "pm_ok os kids pw \<Longrightarrow> kids (snd (wait_all os n pw)) \<subseteq> kids (snd pw) \<and>
   (\<forall>pid. pid \<in> dom (map_of (m_ifindexByPid (fst pw))) \<longrightarrow> pid \<in> kids (snd (wait_all os n pw)) \<longrightarrow>
      pid \<in> dom (map_of (m_ifindexByPid (fst (wait_all os n pw)))))"
proof (induction n arbitrary: pw)
  case (Suc n)
  have laws: "child_laws os kids" using Suc.prems by (simp add: pm_ok_def)
  obtain pid w where r: "sys_waitpid os False (snd pw) = (pid, w)" by fastforce
  show ?case
  proof (cases "m_ifindexByPid (fst pw) \<noteq> [] \<and> 0 < pid")
    case True
    have ok: "pm_ok os kids (forget pid (fst pw), w)"
      using pm_ok_forget [OF _ r] Suc.prems True by simp
    have k: "kids w = kids (snd pw) - {pid}" using child_laws_wait [OF laws r] True by blast
    have "dom (map_of (m_ifindexByPid (forget pid (fst pw)))) = dom (map_of (m_ifindexByPid (fst pw))) - {pid}"
      by (auto simp: forget_def split: option.split)
    with Suc.IH [OF ok] k r True show ?thesis by auto
  next
    case False
    with r child_laws_wait_none [OF laws r] show ?thesis by auto
  qed
qed simp

lemma stopAll_reaped:
  assumes ok: "pm_ok os kids (pm, w)" and "wait_blocks os kids" and "card (kids w) \<le> 200"
  shows "fst (stopAll os (pm, w)) = new_process_manager"
    and "m_byIfindex pm i = Some tp \<Longrightarrow> tp_pid tp \<notin> kids (snd (stopAll os (pm, w)))"
proof -
  let ?w = "kill_all os (map fst (m_ifindexByPid pm)) w"
  have laws: "child_laws os kids" using ok by (simp add: pm_ok_def)
  have ok': "pm_ok os kids (pm, ?w)" using ok by (simp add: pm_ok_def)
  show e: "fst (stopAll os (pm, w)) = new_process_manager"
    using wait_all_empties [OF ok' assms(2), of 200] assms(3) laws by (simp add: stopAll_def)
  assume tp: "m_byIfindex pm i = Some tp"
  then have "tp_pid tp \<in> dom (map_of (m_ifindexByPid pm))"
    using ok pm_inv_byPid [of pm "kids w" "tp_pid tp" i] by (auto simp: pm_ok_def)
  with wait_all_reaped [OF ok', of 200] e show "tp_pid tp \<notin> kids (snd (stopAll os (pm, w)))"
    by (auto simp: stopAll_def new_process_manager_def)
qed

lemma quiet_simps:
  assumes "quiet_laws os kids"
  shows "sys_socket os d t p w = (r, w') \<Longrightarrow> kids w' = kids w"
    and "sys_bind os fd a w = (r, w') \<Longrightarrow> kids w' = kids w"
    and "kids (snd (sys_sendto os fd bs a w)) = kids w"
    and "kids (sys_close os fd w) = kids w"
    and "sys_sigprocmask_block os m w = (r, w') \<Longrightarrow> kids w' = kids w"
    and "sys_signalfd os fd m fl w = (r, w') \<Longrightarrow> kids w' = kids w"
  using assms unfolding quiet_laws_def by (metis snd_conv)+

lemma nl_open_quiet:
  assumes "quiet_laws os kids" and "nl_open os nw w = (ok, nw', w')"
  shows "kids w' = kids w"
  using assms(2) quiet_simps [OF assms(1)]
  by (auto simp: nl_open_def requestDump_def Let_def split: prod.splits if_splits)

lemma openSignalFd_quiet:
  assumes "quiet_laws os kids" and "openSignalFd os (wt, w) = (ok, wt', w')"
  shows "\<exists>fd. wt' = wt\<lparr>w_sigFd := fd\<rparr>" and "kids w' = kids w"
proof -
  show "\<exists>fd. wt' = wt\<lparr>w_sigFd := fd\<rparr>"
    using assms(2) by (cases wt) (auto simp: openSignalFd_def Let_def split: prod.splits if_splits)
  show "kids w' = kids w"
    using assms(2) quiet_simps [OF assms(1)]
    by (auto simp: openSignalFd_def Let_def split: prod.splits if_splits)
qed

text \<open>How \<open>run\<close> ends: it could not be set up, or the loop has ended and the children are stopped.\<close>

lemma watcher_run_cases:
  assumes "watcher_run junk fnm os (wt, w) = Some (Inr (st, wt', w'))" and q: "quiet_laws os kids"
  obtains (unready) nw fd where "st = 1" "wt' = wt\<lparr>w_netlink := nw\<rparr> \<or> wt' = wt\<lparr>w_netlink := nw, w_sigFd := fd\<rparr>"
    "kids w' = kids w"
  | (stopped) nw fd w0 w1 wt2 w2 pm w3 where "st = 0"
    "watcher_poll junk fnm os (wt\<lparr>w_netlink := nw, w_sigFd := fd\<rparr>, w1) = Some (Inr (wt2, w2))"
    "stopAll os (w_processes wt2, w2) = (pm, w3)" "wt' = wt2\<lparr>w_processes := pm\<rparr>"
    "w' = sys_close os (w_sigFd wt2) w3"
    "kids w1 = kids w" "nl_open os (w_netlink wt) w = (True, nw, w0)"
    "openSignalFd os (wt\<lparr>w_netlink := nw\<rparr>, w0) = (True, wt\<lparr>w_netlink := nw, w_sigFd := fd\<rparr>, w1)"
proof -
  obtain ok nw w1 where o: "nl_open os (w_netlink wt) w = (ok, nw, w1)" by (rule prod_cases3)
  obtain ok2 wt1 w2 where g: "openSignalFd os (wt\<lparr>w_netlink := nw\<rparr>, w1) = (ok2, wt1, w2)" by (rule prod_cases3)
  show thesis
  proof (cases "ok \<and> ok2")
    case True
    obtain fd where wt1: "wt1 = wt\<lparr>w_netlink := nw, w_sigFd := fd\<rparr>"
      using g True by (auto simp: openSignalFd_def Let_def split: prod.splits if_splits)
    obtain wt2 w2' where p: "watcher_poll junk fnm os (wt\<lparr>w_netlink := nw, w_sigFd := fd\<rparr>, w2) = Some (Inr (wt2, w2'))"
      and e: "(let (pm, w) = stopAll os (w_processes wt2, w2')
        in (0, wt2\<lparr>w_processes := pm\<rparr>, sys_close os (w_sigFd wt2) w)) = (st, wt', w')"
    proof -
      obtain r where r: "watcher_poll junk fnm os (wt\<lparr>w_netlink := nw, w_sigFd := fd\<rparr>, w2) = Some r"
        using assms o g True wt1 by (auto simp: watcher_run_def Let_def)
      with assms o g True wt1 obtain x where "r = Inr x"
        and "(let (pm, w) = stopAll os (w_processes (fst x), snd x)
          in (0, (fst x)\<lparr>w_processes := pm\<rparr>, sys_close os (w_sigFd (fst x)) w)) = (st, wt', w')"
        by (cases r) (auto simp: watcher_run_def Let_def case_prod_unfold)
      with r that [of "fst x" "snd x"] show ?thesis by simp
    qed
    obtain pm w3 where "stopAll os (w_processes wt2, w2') = (pm, w3)" by (rule prod.exhaust)
    moreover have "kids w2 = kids w" using nl_open_quiet [OF q o] openSignalFd_quiet(2) [OF q g] by simp
    ultimately show thesis using e p o g True wt1 by (intro that(2) [of fd nw w2 wt2 w2' pm w3 w1]) simp_all
  next
    case False
    with g have "ok \<Longrightarrow> \<exists>fd. wt1 = wt\<lparr>w_netlink := nw\<rparr> \<or> wt1 = wt\<lparr>w_netlink := nw, w_sigFd := fd\<rparr>"
      by (auto simp: openSignalFd_def Let_def split: prod.splits if_splits)
    moreover have "kids w1 = kids w" "kids w2 = kids w"
      using nl_open_quiet [OF q o] openSignalFd_quiet(2) [OF q g] by simp_all
    ultimately show thesis using False assms o g that(1)
      by (cases ok) (auto simp: watcher_run_def Let_def)
  qed
qed

text \<open>A fresh watcher to which messages are delivered.\<close>

lemma delivered_children:
  assumes "child_laws os kids" and "quiet_laws os kids" and "fork_succeeds os"
    and "delivers os fd (onChange fnm os) (onRemoved os) fss (new_watcher cfg path, w) ww"
  shows "children ww = wanted (link_table (concat (map event_of (concat fss))) Map.empty) (isEligible fnm cfg)"
proof -
  have l: "links (new_watcher cfg path) = Map.empty" by (simp add: links_def [abs_def] new_watcher_def)
  then have "children (new_watcher cfg path, w) =
      wanted (links (fst (new_watcher cfg path, w))) (isEligible fnm cfg)"
    by (simp add: children_def tracked_def [abs_def] new_watcher_def new_process_manager_def
        wanted_def [abs_def])
  from delivers_refine [OF assms(2,3,4) watcher_inv_new [OF assms(1)] this] l show ?thesis by simp
qed

subsection \<open>Properties\<close>

text \<open>C2: From the wire to the processes: whatever sequence of well-formed datagrams the socket
  holds, a fresh watcher receives them all and then tracks exactly one child for each interface
  that, by the last message about it, is operationally up and eligible, under the name of that
  message, and none for any other (as long as forks succeed and no child has exited).\<close>

theorem datagrams_become_children:
  assumes "child_laws os kids" and "quiet_laws os kids" and "fork_succeeds os"
    and "delivers os fd (onChange fnm os) (onRemoved os) fss (new_watcher cfg path, w) ww"
  shows "processPendingMessages os fd (onChange fnm os) (onRemoved os) m (new_watcher cfg path, w) = Some (Inr ww) \<and>
    children ww = wanted (link_table (concat (map event_of (concat fss))) Map.empty) (isEligible fnm cfg)"
  using delivered_children [OF assms] processPendingMessages_delivers [OF assms(4)] by simp

text \<open>Platforms of children and something else, and one where that is a queue of datagrams.\<close>

definition paired_os :: "(int list \<times> 'q) os" where
  "paired_os = idle_os\<lparr>
     sys_fork := (\<lambda>c w. let (p, ks) = sys_fork list_os c (fst w) in (p, ks, snd w)),
     sys_waitpid := (\<lambda>b w. let (p, ks) = sys_waitpid list_os b (fst w) in (p, ks, snd w)),
     sys_kill := (\<lambda>p sg w. (0, w))\<rparr>"

lemma paired_os_child_laws: "child_laws paired_os (\<lambda>w. list_kids (fst w))"
proof -
  have l: "child_laws list_os list_kids" by (rule list_os_child_laws)
  show ?thesis
    unfolding child_laws_def
  proof (intro conjI allI impI)
    fix c w p w' assume "sys_fork paired_os c w = (p, w')"
    then have "sys_fork list_os c (fst w) = (p, fst w')"
      by (cases "sys_fork list_os c (fst w)") (auto simp: paired_os_def)
    with l show "if p < 0 then list_kids (fst w') = list_kids (fst w)
        else 0 < p \<and> p \<notin> list_kids (fst w) \<and> list_kids (fst w') = insert p (list_kids (fst w))"
      unfolding child_laws_def by blast
  next
    fix b w p w' assume "sys_waitpid paired_os b w = (p, w')"
    then have "sys_waitpid list_os b (fst w) = (p, fst w')"
      by (cases "sys_waitpid list_os b (fst w)") (auto simp: paired_os_def)
    with l show "if 0 < p then p \<in> list_kids (fst w) \<and> list_kids (fst w') = list_kids (fst w) - {p}
        else list_kids (fst w') = list_kids (fst w)"
      unfolding child_laws_def by blast
  next
    fix p sg w show "list_kids (fst (snd (sys_kill paired_os p sg w))) = list_kids (fst w)" by (simp add: paired_os_def)
  next
    fix w :: "int list \<times> 'q" show "finite (list_kids (fst w))" by (simp add: list_kids_def)
  qed
qed

definition net_os :: "(int list \<times> bytes list) os" where
  "net_os = paired_os\<lparr>sys_recv := (\<lambda>fd dw w. case snd w of [] \<Rightarrow> (None, w) | d # ds \<Rightarrow> (Some d, fst w, ds))\<rparr>"

lemma net_os_child_laws: "child_laws net_os (\<lambda>w. list_kids (fst w))"
  using paired_os_child_laws unfolding child_laws_def by (simp add: net_os_def)

lemma net_os_quiet: "quiet_laws net_os (\<lambda>w. list_kids (fst w))"
  unfolding quiet_laws_def by (simp add: net_os_def paired_os_def idle_os_def split: list.split)

lemma net_os_fork_succeeds: "fork_succeeds net_os"
  using list_os_fork_succeeds unfolding fork_succeeds_def by (simp add: net_os_def paired_os_def Let_def case_prod_unfold)

lemma sample_delivers:
  "delivers net_os fd (onChange star_match net_os) (onRemoved net_os) [sample_batch]
     (new_watcher sample_config [], [], [concat (map enc_link sample_batch)])
     (onRemoved net_os (-1) (onChange star_match net_os 3 ''wlan0'' True (new_watcher sample_config [], [], [])))"
proof (rule delivers.batch [where ?w1.0 = "([], [])"])
  obtain s w where sw: "onRemoved net_os (-1)
      (onChange star_match net_os 3 ''wlan0'' True (new_watcher sample_config [], [], [])) = (s, w)" by (rule prod.exhaust)
  have "snd (onRemoved net_os (-1) (onChange star_match net_os 3 ''wlan0'' True
      (new_watcher sample_config [], [], []))) = ([1], [])"
    by (simp add: onChange_def onRemoved_def new_watcher_def startIfEligible_def isEligible_def sample_config_def
        pm_start_def net_os_def paired_os_def list_os_def new_process_manager_def isRunning_def)
  with sw have "w = ([1], [])" by simp
  then have "sys_recv net_os fd True w = (None, w)" by (simp add: net_os_def)
  from delivers.nothing [OF this] sw show "delivers net_os fd (onChange star_match net_os) (onRemoved net_os) []
      (fold (apply_event (onChange star_match net_os) (onRemoved net_os)) (concat (map event_of sample_batch))
        (new_watcher sample_config [], [], []))
      (onRemoved net_os (-1) (onChange star_match net_os 3 ''wlan0'' True (new_watcher sample_config [], [], [])))"
    by (simp only: sample_batch_good fold.simps apply_event.simps comp_def id_def)
qed (simp_all add: sample_batch_good net_os_def, simp add: sample_batch_def)

theorem datagrams_become_children_witness:
  "\<exists>ww. processPendingMessages net_os 5 (onChange star_match net_os) (onRemoved net_os) (\<lambda>_. 0)
      (new_watcher sample_config [], [], [concat (map enc_link sample_batch)]) = Some (Inr ww) \<and>
    children ww = [3 \<mapsto> ''wlan0'']"
proof -
  have "wanted (link_table [Link_change 3 ''wlan0'' True, Link_removed (-1)] Map.empty)
      (isEligible star_match sample_config) = [3 \<mapsto> ''wlan0'']"
    by (auto simp: wanted_def isEligible_def sample_config_def fun_eq_iff)
  moreover have "concat (map event_of (concat [sample_batch])) = [Link_change 3 ''wlan0'' True, Link_removed (-1)]"
    by (simp add: sample_batch_good)
  ultimately show ?thesis
    using datagrams_become_children [OF net_os_child_laws net_os_quiet net_os_fork_succeeds sample_delivers,
        of 5 "\<lambda>_. 0"] by metis
qed

text \<open>C23: The daemon stays up until it is asked to stop: as long as no signal but \<open>SIGCHLD\<close> arrives and
  \<open>poll\<close> fails with \<open>EINTR\<close> only, the poll loop does not return, whatever link messages and child
  exits it handles (it can only go on for ever or end in an exception).\<close>

theorem poll_ends_only_when_asked:
  assumes "undisturbed os" and "\<not> w_shouldExit (fst ww)"
  shows "watcher_poll junk fnm os ww \<noteq> Some (Inr ww')"
  using watcher_poll_undisturbed [OF _ assms(1), of junk fnm ww "Inr ww'"] assms(2) by auto

theorem poll_ends_only_when_asked_witness:
  "\<forall>ww'. watcher_poll (\<lambda>_ _. 0) star_match (list_os\<lparr>sys_poll := (\<lambda>a b w. (Poll_ready False True, w)),
      sys_read_siginfo := (\<lambda>fd w. case w of [] \<Rightarrow> (None, []) | k # ks \<Rightarrow> (Some SIGCHLD, ks))\<rparr>)
     (new_watcher sample_config [], [4]) \<noteq> Some (Inr ww')"
  by (intro allI poll_ends_only_when_asked)
    (auto simp: undisturbed_def new_watcher_def split: list.split)


text \<open>A platform on which everything opens and the first signal is \<open>SIGTERM\<close>.\<close>

definition term_os :: "int list os" where
  "term_os = list_os\<lparr>
     sys_socket := (\<lambda>d t p w. (3, w)), sys_bind := (\<lambda>fd a w. (0, w)),
     sys_sigprocmask_block := (\<lambda>m w. (0, w)), sys_signalfd := (\<lambda>fd m fl w. (4, w)),
     sys_poll := (\<lambda>a b w. (Poll_ready False True, w)),
     sys_read_siginfo := (\<lambda>fd w. case w of [] \<Rightarrow> (Some SIGTERM, [0]) | _ \<Rightarrow> (None, w))\<rparr>"


end
