(* ===== verification/Watcher_Lifecycle.thy ===== *)
theory Watcher_Lifecycle
  imports Watcher_Daemon
begin

section \<open>The life of a daemon and of its trays (watcher.cpp, watcher_iface_state.cpp)\<close>

text \<open>
  What happens around the steady state: a tray that is lost while its interface stays up, and a
  termination signal that reaches the running daemon.
\<close>

subsection \<open>A lost tray\<close>

text \<open>Events that, for interface \<open>i\<close>, say nothing but that it is still up under the name \<open>n\<close>.\<close>

fun keeps_up :: "int \<Rightarrow> string \<Rightarrow> link_event \<Rightarrow> bool" where
  "keeps_up i n (Link_change j m up) \<longleftrightarrow> (j = i \<longrightarrow> m = n \<and> up)"
| "keeps_up i n (Link_removed j) \<longleftrightarrow> j \<noteq> i"

lemma change_effect_other:
  "j \<noteq> i \<Longrightarrow> tracked (change_effect fnm os cfg old j n up pw) i = tracked pw i"
  by (auto simp: change_effect_def Let_def pmt.start_other pmt.tracked_stop split: option.split bool.split)

lemma onChange_other: "j \<noteq> i \<Longrightarrow> children (onChange fnm os j n up ww) i = children ww i"
  by (simp add: children_def onChange_effect change_effect_other)

lemma onRemoved_other: "j \<noteq> i \<Longrightarrow> children (onRemoved os j ww) i = children ww i"
  by (simp add: children_def onRemoved_effect pmt.tracked_stop)

lemma onChange_still_up:
  assumes "links (fst ww) i = Some (n, True)"
  shows "children (onChange fnm os i n True ww) i = children ww i"
  by (simp add: children_def onChange_effect assms change_effect_def Let_def)

lemma keeps_up_step:
  assumes "links (fst ww) i = Some (n, True)" and "keeps_up i n e"
  shows "links (fst (apply_event (onChange fnm os) (onRemoved os) e ww)) i = Some (n, True) \<and>
    children (apply_event (onChange fnm os) (onRemoved os) e ww) i = children ww i"
proof (cases e)
  case (Link_change j m up)
  with assms show ?thesis
    by (cases "j = i") (simp_all add: links_onChange onChange_still_up onChange_other)
next
  case (Link_removed j)
  with assms show ?thesis by (simp add: links_onRemoved onRemoved_other)
qed

lemma keeps_up_steps:
  assumes "links (fst ww) i = Some (n, True)" and "list_all (keeps_up i n) es"
  shows "links (fst (fold (apply_event (onChange fnm os) (onRemoved os)) es ww)) i = Some (n, True) \<and>
    children (fold (apply_event (onChange fnm os) (onRemoved os)) es ww) i = children ww i"
  using assms
proof (induction es arbitrary: ww)
  case (Cons e es)
  with keeps_up_step [of ww i n e fnm os] Cons.IH [of "apply_event (onChange fnm os) (onRemoved os) e ww"]
  show ?case by simp
qed simp

text \<open>What starts a tray again: a report that the interface is up when it was not, or under another name.\<close>

lemma up_starts:
  assumes inv: "watcher_inv fnm os kids cfg ww" and "fork_succeeds os" and "isEligible fnm cfg n"
    and down: "\<nexists>m. links (fst ww) i = Some (m, True)"
  shows "children (onChange fnm os i n True ww) i = Some n"
proof -
  have free: "tracked (w_processes (fst ww), snd ww) i = None"
    using inv down by (cases "tracked (w_processes (fst ww), snd ww) i") (auto simp: watcher_inv_def covered_def children_def)
  have ok: "pm_ok os kids (w_processes (fst ww), snd ww) \<and> fork_succeeds os" "w_cfg (fst ww) = cfg"
    using inv assms(2) by (simp_all add: watcher_inv_def)
  show ?thesis
    using pmt_total.start_succeeds [OF ok(1) free] assms(3) down
    by (auto simp: children_def onChange_effect change_effect_def Let_def ok(2) split: option.split bool.split)
qed

lemma rename_starts:
  assumes inv: "watcher_inv fnm os kids cfg ww" and "fork_succeeds os" and "isEligible fnm cfg m"
    and "links (fst ww) i = Some (n, True)" and "n \<noteq> []" and "m \<noteq> n"
  shows "children (onChange fnm os i m True ww) i = Some m"
proof -
  have ok: "pm_ok os kids (pm_stop os i (w_processes (fst ww), snd ww)) \<and> fork_succeeds os" "w_cfg (fst ww) = cfg"
    using inv assms(2) by (simp_all add: watcher_inv_def pm_ok_stop)
  have free: "tracked (pm_stop os i (w_processes (fst ww), snd ww)) i = None" by (simp add: pmt.tracked_stop)
  show ?thesis
    using pmt_total.start_succeeds [OF ok(1) free] assms(3-6)
    by (simp add: children_def onChange_effect change_effect_def Let_def ok(2))
qed

subsection \<open>Signals\<close>

text \<open>
  signalfd(2): \<open>pend w\<close> are the blocked signals that wait to be read; a read takes one of them and
  fails when there is none (\<open>SFD_NONBLOCK\<close>). More may arrive at any time, during reads and while
  children are waited for, but finitely many: \<open>coming w\<close> bounds those still to come.
\<close>

definition arrivals :: "('w \<Rightarrow> nat set) \<Rightarrow> ('w \<Rightarrow> nat) \<Rightarrow> nat set \<Rightarrow> 'w \<Rightarrow> 'w \<Rightarrow> bool" where
  "arrivals pend coming P w w' \<longleftrightarrow> P \<subseteq> pend w' \<and> card (pend w' - P) + coming w' \<le> coming w"

definition signal_laws :: "'w os \<Rightarrow> ('w \<Rightarrow> nat set) \<Rightarrow> ('w \<Rightarrow> nat) \<Rightarrow> bool" where
  "signal_laws os pend coming \<longleftrightarrow> (\<forall>w. finite (pend w)) \<and>
     (\<forall>fd w x w'. sys_read_siginfo os fd w = (x, w') \<longrightarrow>
        (case x of None \<Rightarrow> pend w = {} \<and> pend w' = {}
         | Some s \<Rightarrow> s \<in> pend w \<and> arrivals pend coming (pend w - {s}) w w')) \<and>
     (\<forall>b w p w'. sys_waitpid os b w = (p, w') \<longrightarrow> arrivals pend coming (pend w) w w')"

lemma signal_laws_read:
  assumes "signal_laws os pend coming"
  shows "sys_read_siginfo os fd w = (None, w') \<Longrightarrow> pend w = {} \<and> pend w' = {}"
    and "sys_read_siginfo os fd w = (Some s, w') \<Longrightarrow> s \<in> pend w \<and> arrivals pend coming (pend w - {s}) w w'"
proof -
  have law: "case x of None \<Rightarrow> pend w = {} \<and> pend w' = {} | Some s \<Rightarrow> s \<in> pend w \<and> arrivals pend coming (pend w - {s}) w w'"
    if "sys_read_siginfo os fd w = (x, w')" for x
    using assms that unfolding signal_laws_def by blast
  show "sys_read_siginfo os fd w = (None, w') \<Longrightarrow> pend w = {} \<and> pend w' = {}"
    and "sys_read_siginfo os fd w = (Some s, w') \<Longrightarrow> s \<in> pend w \<and> arrivals pend coming (pend w - {s}) w w'"
    using law [of None] law [of "Some s"] by simp_all
qed

lemma signal_laws_wait:
  "signal_laws os pend coming \<Longrightarrow> sys_waitpid os b w = (p, w') \<Longrightarrow> arrivals pend coming (pend w) w w'"
  unfolding signal_laws_def by blast

text \<open>What is pending or to come: a wait does not add to it, and a read takes one away.\<close>

definition outstanding :: "('w \<Rightarrow> nat set) \<Rightarrow> ('w \<Rightarrow> nat) \<Rightarrow> 'w \<Rightarrow> nat" where
  "outstanding pend coming w = card (pend w) + coming w"

lemma arrivals_outstanding:
  assumes "signal_laws os pend coming" and "arrivals pend coming P w w'"
  shows "outstanding pend coming w' \<le> card P + coming w"
proof -
  have f: "finite (pend w')" using assms(1) by (simp add: signal_laws_def)
  with assms(2) have "card (pend w') = card P + card (pend w' - P)"
    by (metis add.commute add_diff_inverse_nat arrivals_def card_Diff_subset card_mono finite_subset not_le)
  with assms(2) show ?thesis by (simp add: arrivals_def outstanding_def)
qed

lemma reapExited_pend:
  assumes "reapExited os pw = Some pw'" and s: "signal_laws os pend coming"
  shows "pend (snd pw) \<subseteq> pend (snd pw') \<and> outstanding pend coming (snd pw') \<le> outstanding pend coming (snd pw)"
  using assms(1)
proof (induction rule: reapExited_induct)
  case (finished pm w pid w')
  note a = signal_laws_wait [OF s finished(1)]
  from arrivals_outstanding [OF s a] a show ?case by (simp add: arrivals_def outstanding_def)
next
  case (reap pm w pid w1 pw')
  note a = signal_laws_wait [OF s reap.hyps(1)]
  from arrivals_outstanding [OF s a] a reap.IH show ?case by (auto simp: arrivals_def outstanding_def)
qed

lemma read_outstanding:
  assumes "signal_laws os pend coming" and "sys_read_siginfo os fd w = (Some s, w')"
  shows "outstanding pend coming w' < outstanding pend coming w"
proof -
  have "s \<in> pend w" and a: "arrivals pend coming (pend w - {s}) w w'" using signal_laws_read(2) [OF assms] by simp_all
  moreover have "finite (pend w)" using assms(1) by (simp add: signal_laws_def)
  ultimately have "card (pend w - {s}) < card (pend w)" by (intro card_Diff1_less)
  with arrivals_outstanding [OF assms(1) a] show ?thesis by (simp add: outstanding_def)
qed

lemma reapExited_kids:
  assumes "reapExited os pw = Some pw'" and "child_laws os kids"
  shows "kids (snd pw') \<subseteq> kids (snd pw)"
  using assms(1)
proof (induction rule: reapExited_induct)
  case (reap pm w pid w1 pw')
  with child_laws_wait [OF assms(2) reap.hyps(1,2)] show ?case by auto
qed (simp add: child_laws_wait_none [OF assms(2)])

text \<open>A tracked child is still tracked after the signals have been handled, or it has been waited for.\<close>

lemma reapExited_tracked:
  assumes "reapExited os pw = Some pw'" and "pm_ok os kids pw" and "m_byIfindex (fst pw) i = Some tp"
    and "tp_pid tp \<in> kids (snd pw')"
  shows "m_byIfindex (fst pw') i = Some tp"
  using reapExited_result [OF assms(2)] assms by auto

lemma handleSignals_tracked:
  assumes "handleSignals os ww = Some ww'" and c: "child_laws os kids" and q: "quiet_laws os kids"
  shows "kids (snd ww') \<subseteq> kids (snd ww) \<and>
    (pm_ok os kids (w_processes (fst ww), snd ww) \<and> m_byIfindex (w_processes (fst ww)) i = Some tp \<and>
      tp_pid tp \<in> kids (snd ww') \<longrightarrow> m_byIfindex (w_processes (fst ww')) i = Some tp)"
  using assms(1)
proof (induction rule: handleSignals_induct)
  case (drained wt w w')
  with quiet_read [OF q drained.hyps] show ?case by simp
next
  case (child wt w w1 pw ww')
  have k: "kids w1 = kids w" by (rule quiet_read [OF q child.hyps(1)])
  have sub: "kids (snd pw) \<subseteq> kids w1" using reapExited_kids [OF child.hyps(2) c] by simp
  have "m_byIfindex (w_processes (fst ww')) i = Some tp"
    if p: "pm_ok os kids (w_processes wt, w)" "m_byIfindex (w_processes wt) i = Some tp" "tp_pid tp \<in> kids (snd ww')"
  proof -
    have ok: "pm_ok os kids (w_processes wt, w1)" using p(1) k by (simp add: pm_ok_def)
    have "tp_pid tp \<in> kids (snd pw)" using child.IH p(3) by auto
    with reapExited_tracked [OF child.hyps(2) ok] p(2) have "m_byIfindex (fst pw) i = Some tp" by simp
    with child.IH reap_children(1) [OF ok child.hyps(2)] p(3) show ?thesis by simp
  qed
  with child.IH sub k show ?case by auto
next
  case (stop wt w signo w1 ww')
  with quiet_read [OF q stop.hyps(1)] show ?case by (simp add: pm_ok_def)
qed

text \<open>
  The signals that are pending are all read, those that arrive meanwhile too, and the loop is asked
  to end if one is not \<open>SIGCHLD\<close>.
\<close>

lemma handleSignals_reads:
  assumes c: "child_laws os kids" and q: "quiet_laws os kids" and s: "signal_laws os pend coming"
  shows "pm_ok os kids (w_processes wt, w) \<Longrightarrow> \<exists>wt' w'. handleSignals os (wt, w) = Some (wt', w') \<and> pend w' = {} \<and>
    (w_shouldExit wt \<or> (\<exists>signo \<in> pend w. signo \<noteq> SIGCHLD) \<longrightarrow> w_shouldExit wt')"
proof (induction "outstanding pend coming w" arbitrary: wt w rule: less_induct)
  case less
  obtain x w1 where x: "sys_read_siginfo os (w_sigFd wt) w = (x, w1)" by (rule prod.exhaust)
  have ok: "pm_ok os kids (w_processes wt, w1)" using less.prems quiet_read [OF q x] by (simp add: pm_ok_def)
  show ?case
  proof (cases x)
    case None
    with signal_laws_read(1) [OF s] x show ?thesis by (subst handleSignals.simps) auto
  next
    case (Some signo)
    note x = x [unfolded Some]
    have p: "pend w - {signo} \<subseteq> pend w1" using signal_laws_read(2) [OF s x] by (simp add: arrivals_def)
    note m = read_outstanding [OF s x]
    show ?thesis
    proof (cases "signo = SIGCHLD")
      case True
      obtain pm w2 where r: "reapExited os (w_processes wt, w1) = Some (pm, w2)" and ok': "pm_ok os kids (pm, w2)"
        using reapExited_result [OF ok] by auto
      have p2: "pend w1 \<subseteq> pend w2" and "outstanding pend coming w2 < outstanding pend coming w"
        using reapExited_pend [OF r s] m by simp_all
      from less.hyps [OF this(2), of "wt\<lparr>w_processes := pm\<rparr>"] ok' obtain wt' w' where
        "handleSignals os (wt\<lparr>w_processes := pm\<rparr>, w2) = Some (wt', w')" "pend w' = {}"
        "w_shouldExit wt \<or> (\<exists>signo \<in> pend w2. signo \<noteq> SIGCHLD) \<longrightarrow> w_shouldExit wt'" by auto
      with p p2 True show ?thesis using x r by (subst handleSignals.simps) auto
    next
      case False
      from less.hyps [OF m, of "wt\<lparr>w_shouldExit := True\<rparr>"] ok obtain wt' w' where
        "handleSignals os (wt\<lparr>w_shouldExit := True\<rparr>, w1) = Some (wt', w')" "pend w' = {}" "w_shouldExit wt'" by auto
      then show ?thesis using x False by (subst handleSignals.simps) simp
    qed
  qed
qed

subsection \<open>Rounds of the poll loop\<close>

text \<open>The netlink part of a round, and the states any number of rounds leads to.\<close>

definition netlink_part ::
  "('w \<Rightarrow> buf) \<Rightarrow> (string \<Rightarrow> string \<Rightarrow> bool) \<Rightarrow> 'w os \<Rightarrow> bool \<Rightarrow> watcher \<times> 'w \<Rightarrow> (cpp_exn \<times> watcher \<times> 'w + watcher \<times> 'w) option" where
  "netlink_part junk fnm os nl ww =
     (if nl then processPendingMessages os (nl_fd_of (w_netlink (fst ww))) (onChange fnm os) (onRemoved os)
        (junk (snd ww)) ww
      else Some (Inr ww))"

inductive poll_rounds ::
  "('w \<Rightarrow> buf) \<Rightarrow> (string \<Rightarrow> string \<Rightarrow> bool) \<Rightarrow> 'w os \<Rightarrow> watcher \<times> 'w \<Rightarrow> watcher \<times> 'w \<Rightarrow> bool"
  for junk fnm os where
  here: "poll_rounds junk fnm os ww ww"
| interrupted: "\<not> w_shouldExit wt \<Longrightarrow>
    sys_poll os (nl_fd_of (w_netlink wt)) (w_sigFd wt) w = (Poll_failed True, w1) \<Longrightarrow>
    poll_rounds junk fnm os (wt, w1) ww' \<Longrightarrow> poll_rounds junk fnm os (wt, w) ww'"
| round: "\<not> w_shouldExit wt \<Longrightarrow>
    sys_poll os (nl_fd_of (w_netlink wt)) (w_sigFd wt) w = (Poll_ready nl sig, w1) \<Longrightarrow>
    netlink_part junk fnm os nl (wt, w1) = Some (Inr ww1) \<Longrightarrow>
    (if sig then handleSignals os ww1 else Some ww1) = Some ww2 \<Longrightarrow>
    poll_rounds junk fnm os ww2 ww' \<Longrightarrow> poll_rounds junk fnm os (wt, w) ww'"

lemma watcher_poll_round:
  assumes "\<not> w_shouldExit wt" and "sys_poll os (nl_fd_of (w_netlink wt)) (w_sigFd wt) w = (Poll_ready nl sig, w1)"
    and "netlink_part junk fnm os nl (wt, w1) = Some (Inr ww1)"
    and "(if sig then handleSignals os ww1 else Some ww1) = Some ww2"
  shows "watcher_poll junk fnm os (wt, w) = watcher_poll junk fnm os ww2"
proof -
  have n: "(if nl then processPendingMessages os (nl_fd_of (w_netlink wt)) (onChange fnm os) (onRemoved os) (junk w1) (wt, w1)
      else Some (Inr (wt, w1))) = Some (Inr ww1)"
    using assms(3) by (simp only: netlink_part_def fst_conv snd_conv)
  show ?thesis
    by (subst watcher_poll.simps)
      (simp only: assms(1,2,4) n fst_conv snd_conv prod.case poll_result.case if_False bind.bind_lunit sum.case)
qed

lemma poll_rounds_poll: "poll_rounds junk fnm os ww ww' \<Longrightarrow> watcher_poll junk fnm os ww = watcher_poll junk fnm os ww'"
proof (induction rule: poll_rounds.induct)
  case (interrupted wt w w1 ww')
  then show ?case by (subst watcher_poll.simps) simp
next
  case (round wt w nl sig w1 ww1 ww2 ww')
  from watcher_poll_round [OF round.hyps(1-4)] round.IH show ?case by simp
qed simp

lemma netlink_part_reachable:
  assumes "netlink_part junk fnm os nl ww = Some (Inr ww')" and "quiet_laws os kids"
    and "watcher_reachable fnm os kids cfg ww"
  shows "watcher_reachable fnm os kids cfg ww'"
  using assms processPendingMessages_reachable [OF _ assms(2)] by (cases nl) (auto simp: netlink_part_def)

lemma poll_rounds_reachable:
  assumes q: "quiet_laws os kids"
  shows "poll_rounds junk fnm os ww ww' \<Longrightarrow> watcher_reachable fnm os kids cfg ww \<Longrightarrow>
    watcher_reachable fnm os kids cfg ww'"
proof (induction rule: poll_rounds.induct)
  case (interrupted wt w w1 ww')
  from reachable_world [OF interrupted.prems quiet_poll [OF q interrupted.hyps(2)]] show ?case
    by (rule interrupted.IH)
next
  case (round wt w nl sig w1 ww1 ww2 ww')
  have "watcher_reachable fnm os kids cfg (wt, w1)"
    by (rule reachable_world [OF round.prems quiet_poll [OF q round.hyps(2)]])
  from netlink_part_reachable [OF round.hyps(3) q this] have "watcher_reachable fnm os kids cfg ww1" .
  with round.hyps(4) handleSignals_reachable [OF _ q] have "watcher_reachable fnm os kids cfg ww2" by (cases sig) auto
  then show ?case by (rule round.IH)
qed

lemma reachable_ok:
  "child_laws os kids \<Longrightarrow> watcher_reachable fnm os kids cfg (wt, w) \<Longrightarrow> pm_ok os kids (w_processes wt, w)"
  using watcher_reachable_inv [of os kids fnm cfg "(wt, w)"] by (simp add: watcher_inv_def)

lemma stopAll_kids: "pm_ok os kids (pm, w) \<Longrightarrow> kids (snd (stopAll os (pm, w))) \<subseteq> kids w"
  using wait_all_reaped [of os kids "(pm, kill_all os (map fst (m_ifindexByPid pm)) w)" 200]
  by (simp add: stopAll_def pm_ok_def)

text \<open>The round in which a termination signal is read is the last.\<close>

lemma last_round:
  assumes "\<not> w_shouldExit wt"
    and "sys_poll os (nl_fd_of (w_netlink wt)) (w_sigFd wt) w = (Poll_ready nl True, w1)"
    and "netlink_part junk fnm os nl (wt, w1) = Some (Inr ww1)"
    and "handleSignals os ww1 = Some ww2" and "w_shouldExit (fst ww2)"
  shows "watcher_poll junk fnm os (wt, w) = Some (Inr ww2)"
proof -
  have "watcher_poll junk fnm os ww2 = Some (Inr ww2)" using assms(5) by (subst watcher_poll.simps) simp
  with watcher_poll_round [OF assms(1-3)] assms(4) show ?thesis by simp
qed

subsection \<open>Properties\<close>

text \<open>C12: A tray that is lost while its interface stays up (it exited and was reaped, or could not be
  forked) is not started again by any number of further reports that the interface is up under the same
  name, whatever (named) links are reported up, down or removed besides. If forks succeed, three things start it again: a report
  that the interface is down or that it is removed, followed by one that it is up, and a report that it
  is up under another name, each for a name that is eligible.\<close>

theorem lost_tray_waits_for_link:
  assumes "child_laws os kids" and "watcher_reachable fnm os kids cfg ww"
    and "w_ifaces (fst ww) i = Some \<lparr>if_name = n, was_up = True\<rparr>" and "\<not> isRunning (w_processes (fst ww)) i"
    and "list_all (keeps_up i n) es" and "list_all named_event es"
    and "after = (\<lambda>es'. children (fold (apply_event (onChange fnm os) (onRemoved os)) (es @ es') ww))"
  shows "after [] i = None \<and>
    (fork_succeeds os \<longrightarrow>
      (isEligible fnm cfg n \<longrightarrow> after [Link_change i n False, Link_change i n True] i = Some n \<and>
         after [Link_removed i, Link_change i n True] i = Some n) \<and>
      (\<forall>m. m \<noteq> n \<longrightarrow> isEligible fnm cfg m \<longrightarrow> after [Link_change i m True] i = Some m))"
proof -
  let ?ww = "fold (apply_event (onChange fnm os) (onRemoved os)) es ww"
  have l: "links (fst ww) i = Some (n, True)" using assms(3) by (simp add: links_def)
  have inv: "watcher_inv fnm os kids cfg ww" by (rule watcher_reachable_inv [OF assms(1,2)])
  then have n: "n \<noteq> []" using assms(3) by (fastforce simp: watcher_inv_def)
  have "children ww i = None" using assms(4) by (simp add: children_def tracked_def isRunning_def)
  with keeps_up_steps [OF l assms(5), of fnm os] have lost: "children ?ww i = None" and up: "links (fst ?ww) i = Some (n, True)"
    by simp_all
  note inv' = events_inv [OF inv assms(6)]
  have down: "\<nexists>m. links (fst (onChange fnm os i n False ?ww)) i = Some (m, True)"
    "\<nexists>m. links (fst (onRemoved os i ?ww)) i = Some (m, True)" by (simp_all add: links_onChange links_onRemoved)
  show ?thesis
    using lost up_starts [OF watcher_inv_onChange [OF inv' n] _ _ down(1)] up_starts [OF watcher_inv_onRemoved [OF inv'] _ _ down(2)]
      rename_starts [OF inv' _ _ up n]
    unfolding assms(7) by simp
qed

theorem lost_tray_waits_for_link_witness:
  "\<exists>ww. snd ww = [] \<and> w_ifaces (fst ww) 3 = Some \<lparr>if_name = ''wlan0'', was_up = True\<rparr> \<and>
     children (fold (apply_event (onChange star_match list_os) (onRemoved list_os))
       [Link_change 3 ''wlan0'' True, Link_removed 5] ww) 3 = None \<and>
     children (fold (apply_event (onChange star_match list_os) (onRemoved list_os))
       [Link_change 3 ''wlan0'' True, Link_removed 5, Link_change 3 ''wlan0'' False, Link_change 3 ''wlan0'' True] ww) 3
       = Some ''wlan0'' \<and>
     children (fold (apply_event (onChange star_match list_os) (onRemoved list_os))
       [Link_change 3 ''wlan0'' True, Link_removed 5, Link_change 3 ''wlan1'' True] ww) 3 = Some ''wlan1''"
proof -
  obtain wt w where up: "onChange star_match list_os 3 ''wlan0'' True (new_watcher sample_config [], []) = (wt, w)"
    by (rule prod.exhaust)
  note s = up [unfolded sample_up, symmetric]
  have R: "watcher_reachable star_match list_os list_kids sample_config (wt, w)"
    unfolding up [symmetric] by (rule watcher_reachable.change [OF watcher_reachable.initial]) simp
  have r: "reapExited list_os (w_processes wt, w) = Some (new_process_manager, [])"
    using s by (subst reapExited.simps, simp add: list_os_def forget_def new_process_manager_def,
      subst reapExited.simps, simp)
  let ?ww = "(wt\<lparr>w_processes := new_process_manager\<rparr>, [] :: int list)"
  have R': "watcher_reachable star_match list_os list_kids sample_config ?ww"
    using watcher_reachable.reaped [OF R r] by simp
  have st: "w_ifaces (fst ?ww) 3 = Some \<lparr>if_name = ''wlan0'', was_up = True\<rparr>" "\<not> isRunning (w_processes (fst ?ww)) 3"
    using s by (simp_all add: isRunning_def new_process_manager_def)
  have e: "isEligible star_match sample_config ''wlan0''" "isEligible star_match sample_config ''wlan1''"
    by (simp_all add: isEligible_def sample_config_def)
  have k: "list_all (keeps_up 3 ''wlan0'') [Link_change 3 ''wlan0'' True, Link_removed 5]"
    "list_all named_event [Link_change 3 ''wlan0'' True, Link_removed 5]" by simp_all
  from lost_tray_waits_for_link [OF list_os_child_laws R' st k refl] list_os_fork_succeeds e st(1) show ?thesis
    by (intro exI [of _ ?ww]) simp
qed

text \<open>C11: A termination signal ends a daemon that has been set up: in whatever round of the poll loop it is pending when signals
  are read, together with any link messages (handled without an exception) and any other signals, that round is the last; all signals
  pending are read, those that arrive while they are handled too (as long as they are finitely many),
  \<open>run\<close> returns 0, and if at most 200 children are not yet waited for and each of them ends, no child
  is tracked any more and every child tracked before the signals were read has been waited for.\<close>

theorem term_signal_shuts_down:
  assumes "child_laws os kids" and "quiet_laws os kids" and "wait_blocks os kids" and "signal_laws os pend coming"
    and "nl_open os new_netlink_watcher w = (True, nw, w1)"
    and "openSignalFd os ((new_watcher cfg path)\<lparr>w_netlink := nw\<rparr>, w1) = (True, wt2, w2)"
    and "poll_rounds junk fnm os (wt2, w2) (wt3, w3)" and "\<not> w_shouldExit wt3"
    and "sys_poll os (nl_fd_of (w_netlink wt3)) (w_sigFd wt3) w3 = (Poll_ready nl True, w4)"
    and "netlink_part junk fnm os nl (wt3, w4) = Some (Inr (wt5, w5))"
    and "signo \<in> pend w5" and "signo \<noteq> SIGCHLD" and "card (kids w5) \<le> 200"
  shows "\<exists>wt6 w6 wt' w'. handleSignals os (wt5, w5) = Some (wt6, w6) \<and> pend w6 = {} \<and>
    watcher_poll junk fnm os (wt2, w2) = Some (Inr (wt6, w6)) \<and>
    watcher_run junk fnm os (new_watcher cfg path, w) = Some (Inr (0, wt', w')) \<and>
    w_processes wt' = new_process_manager \<and>
    (\<forall>i tp. m_byIfindex (w_processes wt5) i = Some tp \<longrightarrow> tp_pid tp \<notin> kids w')"
proof -
  have "kids w2 = kids w"
    using nl_open_quiet [OF assms(2,5)] openSignalFd_quiet(2) [OF assms(2,6)] by simp
  moreover obtain fd where wt2: "wt2 = (new_watcher cfg path)\<lparr>w_netlink := nw, w_sigFd := fd\<rparr>"
    using openSignalFd_quiet(1) [OF assms(2,6)] by auto
  ultimately have "watcher_reachable fnm os kids cfg (wt2, w2)"
    using watcher_reachable.other [OF watcher_reachable.initial [where w = w and path = path],
        where w' = w2 and nw = nw and fd = fd and b = False]
    by (simp add: new_watcher_def)
  from poll_rounds_reachable [OF assms(2,7) this] have "watcher_reachable fnm os kids cfg (wt3, w3)" .
  from netlink_part_reachable [OF assms(10,2) reachable_world [OF this quiet_poll [OF assms(2,9)]]]
  have R5: "watcher_reachable fnm os kids cfg (wt5, w5)" .
  note ok5 = reachable_ok [OF assms(1) R5]
  from handleSignals_reads [OF assms(1,2,4) ok5] assms(11,12) obtain wt6 w6 where
    h: "handleSignals os (wt5, w5) = Some (wt6, w6)" and drained: "pend w6 = {}" and e: "w_shouldExit wt6" by blast
  have poll: "watcher_poll junk fnm os (wt2, w2) = Some (Inr (wt6, w6))"
    using poll_rounds_poll [OF assms(7)] last_round [OF assms(8-10) h] e by simp
  obtain pm w7 where st: "stopAll os (w_processes wt6, w6) = (pm, w7)" by (rule prod.exhaust)
  have run: "watcher_run junk fnm os (new_watcher cfg path, w) =
      Some (Inr (0, wt6\<lparr>w_processes := pm\<rparr>, sys_close os (w_sigFd wt6) w7))"
    using assms(5,6) poll st by (simp add: watcher_run_def new_watcher_def)
  note t = handleSignals_tracked [OF h assms(1,2)]
  note ok6 = reachable_ok [OF assms(1) handleSignals_reachable [OF h assms(2) R5]]
  have "finite (kids w5)" using assms(1) by (rule child_laws_finite)
  with card_mono [of "kids w5" "kids w6"] t assms(13) have c: "card (kids w6) \<le> 200" by simp
  note g = stopAll_reaped [OF ok6 assms(3) c, unfolded st fst_conv snd_conv]
  have "tp_pid tp \<notin> kids (sys_close os (w_sigFd wt6) w7)" if "m_byIfindex (w_processes wt5) i = Some tp" for i tp
  proof
    assume "tp_pid tp \<in> kids (sys_close os (w_sigFd wt6) w7)"
    then have k: "tp_pid tp \<in> kids w7" by (simp add: quiet_simps(4) [OF assms(2)])
    have "kids w7 \<subseteq> kids w6" using stopAll_kids [OF ok6] by (simp add: st)
    with k t [of i tp] ok5 that have "m_byIfindex (w_processes wt6) i = Some tp" by auto
    from g(2) [OF this] k show False by contradiction
  qed
  with h drained poll run g(1) show ?thesis by auto
qed

text \<open>A platform on which everything opens and the second component of the world is the pending signals.\<close>

definition signal_os :: "(int list \<times> nat list) os" where
  "signal_os = paired_os\<lparr>
     sys_socket := (\<lambda>d t p w. (3, w)), sys_bind := (\<lambda>fd a w. (0, w)),
     sys_sigprocmask_block := (\<lambda>m w. (0, w)), sys_signalfd := (\<lambda>fd m fl w. (4, w)),
     sys_poll := (\<lambda>a b w. (Poll_ready False (snd w \<noteq> []), w)),
     sys_read_siginfo := (\<lambda>fd w. case snd w of [] \<Rightarrow> (None, w) | s # ss \<Rightarrow> (Some s, fst w, ss))\<rparr>"

lemma signal_os_laws:
  "child_laws signal_os (\<lambda>w. list_kids (fst w))" "quiet_laws signal_os (\<lambda>w. list_kids (fst w))"
  "wait_blocks signal_os (\<lambda>w. list_kids (fst w))" "signal_laws signal_os (\<lambda>w. set (snd w)) (\<lambda>w. length (snd w))"
proof -
  show "child_laws signal_os (\<lambda>w. list_kids (fst w))"
    using paired_os_child_laws unfolding child_laws_def by (simp add: signal_os_def)
  show "quiet_laws signal_os (\<lambda>w. list_kids (fst w))"
    unfolding quiet_laws_def by (simp add: signal_os_def paired_os_def idle_os_def split: list.split)
  show "wait_blocks signal_os (\<lambda>w. list_kids (fst w))"
    using list_os_wait_blocks unfolding wait_blocks_def
    by (simp add: signal_os_def paired_os_def case_prod_unfold Let_def)
  have one: "card (set ss - (insert s (set ss) - {s})) \<le> 1" for s :: nat and ss
    using card_mono [of "{s}" "set ss - (insert s (set ss) - {s})"] by auto
  show "signal_laws signal_os (\<lambda>w. set (snd w)) (\<lambda>w. length (snd w))"
    unfolding signal_laws_def arrivals_def
    using one by (auto simp: signal_os_def paired_os_def case_prod_unfold Let_def split: list.splits)
qed

theorem term_signal_shuts_down_witness:
  "\<exists>wt' w'. watcher_run (\<lambda>_ _. 0) star_match signal_os (new_watcher sample_config [], [], [SIGCHLD, SIGTERM]) =
     Some (Inr (0, wt', w')) \<and> w_processes wt' = new_process_manager"
proof -
  let ?w = "([] :: int list, [SIGCHLD, SIGTERM])"
  let ?wt = "(new_watcher sample_config [])\<lparr>w_netlink := \<lparr>nl_fd = 3\<rparr>, w_sigFd := 4\<rparr>"
  have o: "nl_open signal_os new_netlink_watcher ?w = (True, \<lparr>nl_fd = 3\<rparr>, ?w)"
    by (simp add: nl_open_def requestDump_def signal_os_def paired_os_def idle_os_def new_netlink_watcher_def)
  have g: "openSignalFd signal_os ((new_watcher sample_config [])\<lparr>w_netlink := \<lparr>nl_fd = 3\<rparr>\<rparr>, ?w) = (True, ?wt, ?w)"
    by (simp add: openSignalFd_def signal_os_def)
  have p: "sys_poll signal_os (nl_fd_of (w_netlink ?wt)) (w_sigFd ?wt) ?w = (Poll_ready False True, ?w)"
    by (simp add: signal_os_def)
  have n: "netlink_part (\<lambda>_ _. 0) star_match signal_os False (?wt, ?w) = Some (Inr (?wt, ?w))"
    by (simp add: netlink_part_def)
  have c: "\<not> w_shouldExit ?wt" "SIGTERM \<in> set (snd ?w)" "SIGTERM \<noteq> SIGCHLD" "card (list_kids (fst ?w)) \<le> 200"
    by (simp_all add: new_watcher_def list_kids_def)
  from term_signal_shuts_down [OF signal_os_laws o g poll_rounds.here c(1) p n c(2-4)] show ?thesis by blast
qed

end
