(* ===== verification/Watcher_Main.thy ===== *)
theory Watcher_Main
  imports Config_File Watcher_Lifecycle
begin

section \<open>The watcher's start (watcher/main.cpp)\<close>

text \<open>
  \<open>main\<close> of the watcher: find the configuration file, create it if there is none, load it and run.
  The default document is given a meaning here: what it says as a YAML tree, and which interfaces a
  machine without a configuration monitors.
\<close>

subsection \<open>main\<close>

text \<open>
  What \<open>yaml-cpp\<close> reads depends on the world, in which the file has just been created: the record of
  its operations is taken there. The status is that of the process: returned from \<open>main\<close>, given to
  \<open>exit\<close>, or an exception that ended it. \<open>None\<close> is a daemon that never ends.
\<close>

definition resolveConfigPath :: "(string \<rightharpoonup> string) \<Rightarrow> string" where
  "resolveConfigPath env = resolvePath env"

definition ensureConfigExists :: "'w fsys \<Rightarrow> string \<Rightarrow> 'w \<Rightarrow> (cpp_exn + bool) \<times> 'w list" where
  "ensureConfigExists fsys path w = ensureExists fsys path w"

text \<open>The watcher is made, runs, and is destroyed when \<open>main\<close> returns, which closes its netlink socket.\<close>

definition run_watcher ::
  "('w \<Rightarrow> buf) \<Rightarrow> (string \<Rightarrow> string \<Rightarrow> bool) \<Rightarrow> 'w os \<Rightarrow> config \<Rightarrow> string \<Rightarrow> 'w \<Rightarrow> (int \<times> 'w) outcome option" where
  "run_watcher junk fnm os cfg configPath w =
     do {
       r \<leftarrow> watcher_run junk fnm os (new_watcher cfg configPath, w);
       Some (case r of Inl (e, _) \<Rightarrow> Threw e | Inr (st, wt, w) \<Rightarrow> Returned (st, nl_destroy os (w_netlink wt) w))
     }"

definition watcher_main ::
  "('w \<Rightarrow> buf) \<Rightarrow> (string \<Rightarrow> string \<Rightarrow> bool) \<Rightarrow> 'w os \<Rightarrow> 'w fsys \<Rightarrow> ('w \<Rightarrow> 'n yaml) \<Rightarrow> (string \<rightharpoonup> string) \<Rightarrow> 'w
   \<Rightarrow> (int \<times> 'w) outcome option" where
  "watcher_main junk fnm os fsys yaml env w =
     (let configPath = resolveConfigPath env
      in case ensureConfigExists fsys configPath w of
           (Inl e, ws) \<Rightarrow> Some (Threw e)
         | (Inr created, ws) \<Rightarrow>
             (let w = last (w # ws)
              in case loadConfig (yaml w) configPath of
                   Threw e \<Rightarrow> Some (Threw e)
                 | Exited c \<Rightarrow> Some (Exited c)
                 | Returned cfg \<Rightarrow> run_watcher junk fnm os cfg configPath w))"

subsection \<open>The default configuration\<close>

text \<open>The lines of a file, and those that say something: not empty and no comment.\<close>

fun lines_of :: "string \<Rightarrow> string list" where
  "lines_of [] = []"
| "lines_of (c # s) =
     (if c = CHR 0x0A then [] # lines_of s
      else case lines_of s of [] \<Rightarrow> [[c]] | l # ls \<Rightarrow> (c # l) # ls)"

definition settings_lines :: "string list \<Rightarrow> string list" where
  "settings_lines ls = filter (\<lambda>l. l \<noteq> [] \<and> hd l \<noteq> CHR ''#'') ls"

lemma lines_of_line: "CHR 0x0A \<notin> set l \<Longrightarrow> lines_of (l @ CHR 0x0A # s) = l # lines_of s"
  by (induction l) auto

lemma lines_of_concat:
  "\<forall>l \<in> set ls. CHR 0x0A \<notin> set l \<Longrightarrow> lines_of (concat (map (\<lambda>l. l @ [CHR 0x0A]) ls)) = ls"
  by (induction ls) (simp_all add: lines_of_line)

text \<open>
  A small form of YAML: a target, no include patterns, some exclude patterns, no interfaces, one setting
  per line and scalars in double quotes, with no character that has a meaning there.
\<close>

definition quotable :: "string \<Rightarrow> bool" where
  "quotable s \<longleftrightarrow> (\<forall>c \<in> set s. 32 \<le> (of_char c :: nat) \<and> (of_char c :: nat) < 127 \<and> c \<noteq> CHR 0x22 \<and> c \<noteq> CHR 0x5C)"

definition simple_lines :: "string \<Rightarrow> string list \<Rightarrow> string list" where
  "simple_lines target patterns =
     [''default_target: \"'' @ target @ ''\"'', ''include: []'', ''exclude:''] @
     map (\<lambda>p. ''  - \"'' @ p @ ''\"'') patterns @ [''interfaces: {}'']"

definition simple_doc :: "string \<Rightarrow> string list \<Rightarrow> ynode" where
  "simple_doc target patterns = Y_map
     [(Y_scalar ''default_target'', Y_scalar target),
      (Y_scalar ''include'', Y_seq []),
      (Y_scalar ''exclude'', Y_seq (map Y_scalar patterns)),
      (Y_scalar ''interfaces'', Y_map [])]"

text \<open>
  What \<open>yaml-cpp\<close> is relied on for here: a file whose lines that say something have this form, with any
  target and any patterns, is read as the tree they denote.
\<close>

definition reads_simple :: "('w \<Rightarrow> ynode yaml) \<Rightarrow> ('w \<Rightarrow> string \<rightharpoonup> string) \<Rightarrow> bool" where
  "reads_simple yaml contents \<longleftrightarrow>
     (\<forall>w p text target patterns. contents w p = Some text \<and>
        settings_lines (lines_of text) = simple_lines target patterns \<and>
        quotable target \<and> list_all quotable patterns \<and> patterns \<noteq> [] \<longrightarrow>
        y_load (yaml w) p = Some (simple_doc target patterns) \<and>
        yaml w = (tree_yaml (simple_doc target patterns))\<lparr>y_load := y_load (yaml w)\<rparr>)"

text \<open>The default document has this form.\<close>

definition default_excludes :: "string list" where
  "default_excludes = [''lo'', ''docker*'', ''podman*'', ''virbr*'', ''veth*'', ''br-*'']"

lemma default_settings_lines:
  "settings_lines (lines_of DefaultConfigYaml) = simple_lines ''1.1.1.1'' default_excludes"
proof -
  have "\<forall>l \<in> set default_lines. CHR 0x0A \<notin> set l" by code_simp
  then have "lines_of DefaultConfigYaml = default_lines" unfolding DefaultConfigYaml_def by (rule lines_of_concat)
  moreover have "settings_lines default_lines = simple_lines ''1.1.1.1'' default_excludes" by code_simp
  ultimately show ?thesis by simp
qed

lemma default_quotable: "quotable ''1.1.1.1'' \<and> list_all quotable default_excludes \<and> default_excludes \<noteq> []"
  by code_simp

definition default_config :: config where
  "default_config = new_config\<lparr>exclude_pats := default_excludes\<rparr>"

lemma load_default:
  assumes "y_load y path = Some doc" and "y = (tree_yaml doc)\<lparr>y_load := l\<rparr>"
    and "doc = simple_doc ''1.1.1.1'' default_excludes"
  shows "loadConfig y path = Returned default_config"
proof -
  have "l path = Some doc" using assms(1,2) by simp
  then show ?thesis
    unfolding assms(2,3)
    by (simp add: load_defs tree_yaml_def simple_doc_def default_excludes_def default_config_def validatePrecedence_def)
qed

lemma default_eligible:
  assumes "fnmatch_laws fnm"
  shows "isEligible fnm default_config name \<longleftrightarrow>
    name \<noteq> ''lo'' \<and> (\<forall>p \<in> {''docker'', ''podman'', ''virbr'', ''veth'', ''br-''}. \<not> prefix p name)"
proof -
  have star: "fnm (p @ ''*'') name = prefix p name" and lo: "fnm p name = (p = name)" if "plain p" for p
    using assms that unfolding fnmatch_laws_def by blast+
  have "fnm ''docker*'' name = prefix ''docker'' name" "fnm ''podman*'' name = prefix ''podman'' name"
    "fnm ''virbr*'' name = prefix ''virbr'' name" "fnm ''veth*'' name = prefix ''veth'' name"
    "fnm ''br-*'' name = prefix ''br-'' name"
    using star [of "''docker''"] star [of "''podman''"] star [of "''virbr''"] star [of "''veth''"]
      star [of "''br-''"] by (simp_all add: plain_def)
  moreover have "fnm ''lo'' name = (name = ''lo'')" using lo [of "''lo''"] by (auto simp: plain_def)
  ultimately show ?thesis
    by (simp add: isEligible_def matchesAny_iff default_config_def default_excludes_def new_config_def)
qed

lemma map_fs_creates: "\<exists>ws. ensureConfigExists (map_fs room) path Map.empty = (Inr True, ws)"
  by (simp add: ensureConfigExists_def ensureExists_def writeDefaultConfig_def map_fs_def Let_def)

lemma idle_run: "run_watcher junk fnm idle_os cfg path w = Some (Returned (1, w))"
  by (simp add: run_watcher_def watcher_run_def nl_open_def nl_destroy_def new_watcher_def new_netlink_watcher_def)

subsection \<open>Properties\<close>

text \<open>C22: The first start on a machine without a configuration: when the file has been created (its writes
  being complete; \<open>yaml-cpp\<close> reads comments and settings of the form the default document has as YAML
  says, and \<open>fnmatch\<close> reads a final star and plain names as documented), \<open>main\<close> runs a watcher that monitors every interface but
  \<open>lo\<close> and those whose name starts with docker, podman, virbr, veth or br-, pinging
  \<open>1.1.1.1\<close>, with no IPv6 target and no gateway override, under the interface's own name; its
  status is that of the run.\<close>

theorem first_start:
  assumes "file_laws fsys contents" and "writes_complete fsys contents" and "reads_simple yaml contents"
    and "fnmatch_laws fnm"
    and "ensureConfigExists fsys (resolveConfigPath env) w = (Inr True, ws)"
  shows "\<exists>cfg. watcher_main junk fnm os fsys yaml env w =
      run_watcher junk fnm os cfg (resolveConfigPath env) (last ws) \<and>
    (\<forall>name. (isEligible fnm cfg name \<longleftrightarrow> name \<noteq> ''lo'' \<and>
        (\<forall>p \<in> {''docker'', ''podman'', ''virbr'', ''veth'', ''br-''}. \<not> prefix p name)) \<and>
      resolveTarget cfg name = ''1.1.1.1'' \<and> resolveTarget6 cfg name = [] \<and> resolveLabel cfg name = name \<and>
      resolveGatewayIpOverride4 cfg name = [] \<and> resolveGatewayIpOverride6 cfg name = [])"
proof -
  let ?path = "resolveConfigPath env" and ?w = "last (w # ws)"
  have e: "ensureExists fsys ?path w = (Inr True, ws)" using assms(5) by (simp add: ensureConfigExists_def)
  have ws: "?w = last ws" using e by (cases ws) (auto simp: ensureExists_def Let_def split: option.splits bool.splits prod.splits if_splits)
  from ensureExists_trace [OF assms(1,2) e] have "contents (last ws) ?path = Some DefaultConfigYaml" by simp
  with assms(3) default_settings_lines default_quotable
  have "y_load (yaml (last ws)) ?path = Some (simple_doc ''1.1.1.1'' default_excludes)"
    and "yaml (last ws) = (tree_yaml (simple_doc ''1.1.1.1'' default_excludes))\<lparr>y_load := y_load (yaml (last ws))\<rparr>"
    unfolding reads_simple_def by blast+
  from load_default [OF this refl] ws have "loadConfig (yaml ?w) ?path = Returned default_config" by simp
  with ws have "watcher_main junk fnm os fsys yaml env w =
      run_watcher junk fnm os default_config ?path (last ws)"
    by (simp add: watcher_main_def assms(5) Let_def)
  moreover have "resolveTarget default_config name = ''1.1.1.1'' \<and> resolveTarget6 default_config name = [] \<and>
      resolveLabel default_config name = name \<and> resolveGatewayIpOverride4 default_config name = [] \<and>
      resolveGatewayIpOverride6 default_config name = []" for name
    by (simp add: default_config_def new_config_def resolveTarget_def resolveTarget6_def resolveLabel_def
        resolveGatewayIpOverride4_def resolveGatewayIpOverride6_def)
  ultimately show ?thesis using default_eligible [OF assms(4)] by blast
qed

text \<open>A reader of files of that form.\<close>

definition parse_simple :: "string \<Rightarrow> ynode option" where
  "parse_simple text =
     (case settings_lines (lines_of text) of
        a # b # c # rest \<Rightarrow>
          (let target = butlast (drop 17 a); patterns = map (\<lambda>l. butlast (drop 5 l)) (butlast rest)
           in if a # b # c # rest = simple_lines target patterns then Some (simple_doc target patterns) else None)
      | _ \<Rightarrow> None)"

definition simple_yaml :: "(string \<rightharpoonup> string) \<Rightarrow> ynode yaml" where
  "simple_yaml files = (tree_yaml Y_undefined)\<lparr>y_load := (\<lambda>p. Option.bind (files p) parse_simple)\<rparr>"

lemma parse_simple_lines:
  assumes "settings_lines (lines_of text) = simple_lines target patterns"
  shows "parse_simple text = Some (simple_doc target patterns)"
proof -
  have q: "map (\<lambda>l. butlast (drop 5 l)) (map (\<lambda>p. ''  - \"'' @ p @ ''\"'') patterns) = patterns"
    by (induction patterns) simp_all
  show ?thesis unfolding parse_simple_def assms by (simp add: simple_lines_def q [simplified] butlast_append)
qed

lemma simple_yaml_reads: "reads_simple simple_yaml (\<lambda>w. w)"
  unfolding reads_simple_def simple_yaml_def by (auto simp: parse_simple_lines tree_yaml_def)

theorem first_start_witness:
  "\<exists>cfg. watcher_main (\<lambda>_ _. 0) star_match idle_os (map_fs (length DefaultConfigYaml)) simple_yaml
      Map.empty Map.empty = Some (Returned (1, last (snd (ensureConfigExists (map_fs (length DefaultConfigYaml))
        (resolveConfigPath Map.empty) Map.empty)))) \<and> isEligible star_match cfg ''wlan0'' \<and> \<not> isEligible star_match cfg ''veth7''"
proof -
  let ?fs = "map_fs (length DefaultConfigYaml)" and ?path = "resolveConfigPath Map.empty"
  have c: "writes_complete ?fs (\<lambda>w. w)" by (auto simp: writes_complete_def map_fs_def)
  obtain ws where "ensureConfigExists ?fs ?path Map.empty = (Inr True, ws)"
    using map_fs_creates by blast
  then have e: "ensureConfigExists ?fs (resolveConfigPath Map.empty) Map.empty = (Inr True, ws)" .
  show ?thesis
    using first_start [OF map_fs_laws c simple_yaml_reads fnmatch_laws_star_match e, of "\<lambda>_ _. 0" idle_os]
  proof (elim exE conjE)
    fix cfg
    assume m: "watcher_main (\<lambda>_ _. 0) star_match idle_os ?fs simple_yaml Map.empty Map.empty =
        run_watcher (\<lambda>_ _. 0) star_match idle_os cfg ?path (last ws)"
      and p: "\<forall>name. (isEligible star_match cfg name \<longleftrightarrow> name \<noteq> ''lo'' \<and>
          (\<forall>p \<in> {''docker'', ''podman'', ''virbr'', ''veth'', ''br-''}. \<not> prefix p name)) \<and>
        resolveTarget cfg name = ''1.1.1.1'' \<and> resolveTarget6 cfg name = [] \<and> resolveLabel cfg name = name \<and>
        resolveGatewayIpOverride4 cfg name = [] \<and> resolveGatewayIpOverride6 cfg name = []"
    show ?thesis
    proof (intro exI conjI)
      show "watcher_main (\<lambda>_ _. 0) star_match idle_os ?fs simple_yaml Map.empty Map.empty = Some (Returned (1, last (snd (ensureConfigExists ?fs ?path Map.empty))))"
        unfolding m idle_run e by simp
      show "isEligible star_match cfg ''wlan0''" by (simp only: p) simp
      show "\<not> isEligible star_match cfg ''veth7''" by (simp only: p) simp
    qed
  qed
qed

text \<open>A file that is already there is read as it is and not touched: when it cannot be read as a
  configuration the exception of \<open>yaml-cpp\<close> ends the process, when both of its pattern lists
  restrict it exits with 1 before anything is opened or started, and otherwise the watcher runs
  with exactly that configuration and its status is that of the run.\<close>

lemma existing_configuration:
  assumes "fs_exists fsys (resolveConfigPath env) w = Some True"
  shows "watcher_main junk fnm os fsys yaml env w =
    (case readConfig (yaml w) (resolveConfigPath env) of
       None \<Rightarrow> Some (Threw Yaml_exception)
     | Some cfg \<Rightarrow>
         if real_patterns (include_pats cfg) \<and> real_patterns (exclude_pats cfg) then Some (Exited 1)
         else run_watcher junk fnm os cfg (resolveConfigPath env) w)"
  using assms
  by (auto simp: watcher_main_def ensureConfigExists_def ensureExists_def loadConfig_def validatePrecedence_None Let_def real_patterns_def validatePrecedence_def split: option.split)

lemma existing_configuration_witness:
  "watcher_main (\<lambda>_ _. 0) star_match idle_os (map_fs 5)
     (\<lambda>w. tree_yaml (Y_map [(Y_scalar ''include'', Y_seq [Y_scalar ''wl*'']), (Y_scalar ''exclude'', Y_seq [Y_scalar ''lo''])]))
     Map.empty [resolveConfigPath Map.empty \<mapsto> []] = Some (Exited 1)"
  using existing_configuration [of "map_fs 5" Map.empty "[resolveConfigPath Map.empty \<mapsto> []]"
      "\<lambda>_ _. 0" star_match idle_os "\<lambda>w. tree_yaml (Y_map [(Y_scalar ''include'', Y_seq [Y_scalar ''wl*'']),
        (Y_scalar ''exclude'', Y_seq [Y_scalar ''lo''])])"]
  by (simp add: map_fs_def load_defs tree_yaml_def real_patterns_def)

end
