(* ===== verification/Watcher_Descriptors.thy ===== *)
theory Watcher_Descriptors
  imports Watcher_Main
begin

section \<open>The descriptors of the watcher\<close>

text \<open>
  The daemon runs for as long as the session does: it holds its netlink socket and its signal
  descriptor, no operation opens another one, and both are closed when \<open>main\<close> returns, on every path.
\<close>

subsection \<open>The platform's side\<close>

text \<open>
  socket(2), signalfd(2) and close(2): \<open>fds w\<close> are the descriptors the process has open; the other
  calls of the watcher leave them alone (the child that \<open>fork\<close> makes has its own).
\<close>

definition makes_fd :: "('w \<Rightarrow> int set) \<Rightarrow> ('w \<Rightarrow> int \<times> 'w) \<Rightarrow> bool" where
  "makes_fd fds call \<longleftrightarrow> (\<forall>w fd w'. call w = (fd, w') \<longrightarrow>
     (if fd < 0 then fds w' = fds w else fd \<notin> fds w \<and> fds w' = insert fd (fds w)))"

definition daemon_fd_laws :: "'w os \<Rightarrow> ('w \<Rightarrow> int set) \<Rightarrow> bool" where
  "daemon_fd_laws os fds \<longleftrightarrow>
     (\<forall>d t p. makes_fd fds (sys_socket os d t p)) \<and> (\<forall>m fl. makes_fd fds (sys_signalfd os (-1) m fl)) \<and>
     (\<forall>fd w. fds (sys_close os fd w) = fds w - {fd}) \<and>
     (\<forall>fd a. keeps fds (sys_bind os fd a)) \<and> (\<forall>fd bs a. keeps fds (sys_sendto os fd bs a)) \<and>
     (\<forall>fd dw. keeps fds (sys_recv os fd dw)) \<and> (\<forall>m. keeps fds (sys_sigprocmask_block os m)) \<and>
     (\<forall>a b. keeps fds (sys_poll os a b)) \<and> (\<forall>fd. keeps fds (sys_read_siginfo os fd)) \<and>
     (\<forall>c. keeps fds (sys_fork os c)) \<and> (\<forall>p s. keeps fds (sys_kill os p s)) \<and> (\<forall>b. keeps fds (sys_waitpid os b))"

lemma daemon_fds:
  assumes "daemon_fd_laws os fds"
  shows fd_makes: "makes_fd fds (sys_socket os d t p)" "makes_fd fds (sys_signalfd os (-1) m fl)"
    and fd_close: "fds (sys_close os fd w) = fds w - {fd}"
    and fd_keeps: "keeps fds (sys_bind os fd a)" "keeps fds (sys_sendto os fd bs a)" "keeps fds (sys_recv os fd dw)"
      "keeps fds (sys_sigprocmask_block os m)" "keeps fds (sys_poll os nfd sfd)" "keeps fds (sys_read_siginfo os fd)"
      "keeps fds (sys_fork os c)" "keeps fds (sys_kill os pid sg)" "keeps fds (sys_waitpid os nohang)"
  using assms by (simp_all add: daemon_fd_laws_def)

lemmas daemon_keeps_simps = keeps_snd [OF fd_keeps(2)] keeps_snd [OF fd_keeps(8)]

subsection \<open>The operations keep the descriptors\<close>

text \<open>Two states of a watcher that hold the same descriptors, in the same fields.\<close>

definition same_fds :: "('w \<Rightarrow> int set) \<Rightarrow> watcher \<times> 'w \<Rightarrow> watcher \<times> 'w \<Rightarrow> bool" where
  "same_fds fds ww ww' \<longleftrightarrow> fds (snd ww') = fds (snd ww) \<and>
     w_netlink (fst ww') = w_netlink (fst ww) \<and> w_sigFd (fst ww') = w_sigFd (fst ww)"

lemma same_fds_refl: "same_fds fds ww ww"
  and same_fds_trans [trans]: "same_fds fds ww ww' \<Longrightarrow> same_fds fds ww' ww'' \<Longrightarrow> same_fds fds ww ww''"
  by (auto simp: same_fds_def)

lemma pm_stop_fds: "daemon_fd_laws os fds \<Longrightarrow> fds (snd (pm_stop os i pw)) = fds (snd pw)"
  by (cases pw) (simp add: pm_stop_def Let_def daemon_keeps_simps split: option.split)

lemma start_with_fds: "daemon_fd_laws os fds \<Longrightarrow> fds (snd (start_with os i n a pw)) = fds (snd pw)"
  by (cases pw; cases a) (auto simp: start_with_def pm_start_def Let_def dest: keepsD [OF fd_keeps(7)] split: prod.split)

lemma change_effect_fds:
  "daemon_fd_laws os fds \<Longrightarrow> fds (snd (change_effect fnm os cfg old i n up pw)) = fds (snd pw)"
  by (auto simp: change_effect_def Let_def pm_stop_fds start_with_fds split: option.split bool.split)

lemma callbacks_fields [simp]:
  "w_netlink (fst (onChange fnm os i n up ww)) = w_netlink (fst ww)"
  "w_sigFd (fst (onChange fnm os i n up ww)) = w_sigFd (fst ww)"
  "w_netlink (fst (onRemoved os i ww)) = w_netlink (fst ww)"
  "w_sigFd (fst (onRemoved os i ww)) = w_sigFd (fst ww)"
  by (auto simp: onChange_def onRemoved_def startIfEligible_def watcher_stop_def Let_def split: prod.split option.split)

lemma onChange_fds:
  assumes "daemon_fd_laws os fds" shows "same_fds fds ww (onChange fnm os i n up ww)"
  using arg_cong [OF onChange_effect(3) [of fnm os i n up ww], of "\<lambda>pw. fds (snd pw)"]
  by (simp add: same_fds_def change_effect_fds [OF assms])

lemma onRemoved_fds:
  assumes "daemon_fd_laws os fds" shows "same_fds fds ww (onRemoved os i ww)"
  using arg_cong [OF onRemoved_effect(3) [of os i ww], of "\<lambda>pw. fds (snd pw)"]
  by (simp add: same_fds_def pm_stop_fds [OF assms] split: if_splits)

lemma processPendingMessages_fds:
  assumes "processPendingMessages os fd (onChange fnm os) (onRemoved os) m sw = Some (Inr sw')"
    and laws: "daemon_fd_laws os fds"
  shows "same_fds fds sw sw'"
proof (rule processPendingMessages_keeps [where P = "same_fds fds sw", OF assms(1) same_fds_refl])
  fix s w x w' fd assume "same_fds fds sw (s, w)" and "sys_recv os fd True w = (x, w')"
  with keepsD [OF fd_keeps(3) [OF laws]] show "same_fds fds sw (s, w')" by (fastforce simp: same_fds_def)
qed (erule same_fds_trans, rule onChange_fds [OF laws] onRemoved_fds [OF laws])+

lemma reapExited_fds:
  assumes "reapExited os pw = Some pw'" and "daemon_fd_laws os fds"
  shows "fds (snd pw') = fds (snd pw)"
  using assms(1) by (induction rule: reapExited_induct) (use keepsD [OF fd_keeps(9) [OF assms(2)]] in auto)

lemma handleSignals_fds:
  assumes "handleSignals os ww = Some ww'" and laws: "daemon_fd_laws os fds"
  shows "same_fds fds ww ww'"
  using assms(1)
proof (induction rule: handleSignals_induct)
  case (child wt w w1 pw ww')
  with reapExited_fds [OF child.hyps(2) laws] keepsD [OF fd_keeps(6) [OF laws] child.hyps(1)] show ?case
    by (simp add: same_fds_def)
qed (use keepsD [OF fd_keeps(6) [OF laws]] in \<open>auto simp: same_fds_def\<close>)

lemma watcher_poll_fds:
  assumes "watcher_poll junk fnm os ww = Some r" and laws: "daemon_fd_laws os fds"
  shows "r = Inr ww' \<Longrightarrow> same_fds fds ww ww'"
  using assms(1)
proof (induction rule: watcher_poll_induct)
  case (interrupted wt w w1 r)
  with keepsD [OF fd_keeps(5) [OF laws] interrupted.hyps(2)] show ?case by (simp add: same_fds_def)
next
  case (round wt w nl sig w1 ww1 ww2 r)
  have "same_fds fds (wt, w) (wt, w1)" using keepsD [OF fd_keeps(5) [OF laws] round.hyps(2)] by (simp add: same_fds_def)
  also have "same_fds fds (wt, w1) ww1" using round.hyps(3) processPendingMessages_fds [OF _ laws]
    by (cases nl) (auto simp: same_fds_refl)
  also have "same_fds fds ww1 ww2" using round.hyps(4) handleSignals_fds [OF _ laws]
    by (cases sig) (auto simp: same_fds_refl)
  also have "same_fds fds ww2 ww'" by (rule round.IH [OF round.prems])
  finally show ?case .
qed (use keepsD [OF fd_keeps(5) [OF laws]] in \<open>auto simp: same_fds_def\<close>)

lemma stopAll_fds:
  assumes "daemon_fd_laws os fds" shows "fds (snd (stopAll os pw)) = fds (snd pw)"
proof -
  have k: "fds (kill_all os ps w) = fds w" for ps w
    by (induction ps arbitrary: w) (simp_all add: keeps_snd [OF fd_keeps(8) [OF assms]])
  have "fds (snd (wait_all os n pw)) = fds (snd pw)" for n pw
    by (induction n arbitrary: pw) (auto dest: keepsD [OF fd_keeps(9) [OF assms]] split: prod.split)
  with k show ?thesis by (cases pw) (simp add: stopAll_def)
qed

subsection \<open>From start to end\<close>

lemma makes_fdD:
  assumes "makes_fd fds call" and "call w = (fd, w')"
  shows "fd < 0 \<Longrightarrow> fds w' = fds w" and "\<not> fd < 0 \<Longrightarrow> fd \<notin> fds w \<and> fds w' = insert fd (fds w)"
  using assms unfolding makes_fd_def by metis+

lemma nl_open_fds:
  assumes "nl_open os new_netlink_watcher w = (ok, nw, w')" and laws: "daemon_fd_laws os fds"
  shows "if ok then 0 \<le> nl_fd nw \<and> nl_fd nw \<notin> fds w \<and> fds w' = insert (nl_fd nw) (fds w)
    else nl_fd nw < 0 \<and> fds w' = fds w"
proof -
  obtain fd w1 where s: "sys_socket os AF_NETLINK (SOCK_RAW OR SOCK_CLOEXEC) NETLINK_ROUTE w = (fd, w1)" by (rule prod.exhaust)
  obtain rc w2 where b: "sys_bind os fd (Sockaddr_nl RTMGRP_LINK) w1 = (rc, w2)" by (rule prod.exhaust)
  note m = makes_fdD [OF fd_makes(1) [OF laws] s] and k = keepsD [OF fd_keeps(1) [OF laws] b]
  have v: "(ok, nw, w') = (if fd < 0 then (False, \<lparr>nl_fd = fd\<rparr>, w1)
      else if rc < 0 then (False, \<lparr>nl_fd = -1\<rparr>, sys_close os fd w2)
      else (True, \<lparr>nl_fd = fd\<rparr>, requestDump os \<lparr>nl_fd = fd\<rparr> w2))"
    unfolding assms(1) [symmetric] by (simp add: nl_open_def new_netlink_watcher_def s [simplified] b [simplified] Let_def)
  consider "fd < 0" | "\<not> fd < 0" "rc < 0" | "\<not> fd < 0" "\<not> rc < 0" by blast
  then show ?thesis
  proof cases
    case 1
    with v m(1) show ?thesis by simp
  next
    case 2
    with v have "\<not> ok" "nl_fd nw < 0" "w' = sys_close os fd w2" by simp_all
    with m(2) [OF 2(1)] k show ?thesis by (simp add: fd_close [OF laws])
  next
    case 3
    with v have "ok" "nl_fd nw = fd" "w' = requestDump os nw w2" by simp_all
    with 3 m(2) [OF 3(1)] k keeps_snd [OF fd_keeps(2) [OF laws]] show ?thesis by (simp add: requestDump_def)
  qed
qed

lemma openSignalFd_fds:
  assumes "openSignalFd os (wt, w) = (ok, wt', w')" and laws: "daemon_fd_laws os fds"
  shows "w_netlink wt' = w_netlink wt" and
    "if ok then w_sigFd wt' \<notin> fds w \<and> fds w' = insert (w_sigFd wt') (fds w) else fds w' = fds w"
proof -
  let ?mask = "[SIGCHLD, SIGTERM, SIGINT]"
  obtain rc w1 where p: "sys_sigprocmask_block os ?mask w = (rc, w1)" by (rule prod.exhaust)
  obtain fd w2 where s: "sys_signalfd os (-1) ?mask (SFD_CLOEXEC + SFD_NONBLOCK) w1 = (fd, w2)" by (rule prod.exhaust)
  note m = makes_fdD [OF fd_makes(2) [OF laws] s] and k = keepsD [OF fd_keeps(4) [OF laws] p]
  show "w_netlink wt' = w_netlink wt"
    and "if ok then w_sigFd wt' \<notin> fds w \<and> fds w' = insert (w_sigFd wt') (fds w) else fds w' = fds w"
    using assms(1) m k by (cases "rc < 0"; cases "fd < 0"; auto simp: openSignalFd_def p s [simplified] Let_def)+
qed

lemma run_watcher_fds:
  assumes "run_watcher junk fnm os cfg path w = Some (Returned (st, w'))" and laws: "daemon_fd_laws os fds"
  shows "fds w' = fds w"
proof -
  let ?wt = "new_watcher cfg path"
  obtain r where run: "watcher_run junk fnm os (?wt, w) = Some r"
    and w': "(case r of Inl (e, _) \<Rightarrow> Threw e | Inr (st, wt, w) \<Rightarrow> Returned (st, nl_destroy os (w_netlink wt) w)) = Returned (st, w')"
    using assms(1) by (auto simp: run_watcher_def)
  obtain ok nw w1 where o: "nl_open os new_netlink_watcher w = (ok, nw, w1)" by (rule prod_cases3)
  obtain ok2 wt2 w2 where g: "openSignalFd os (?wt\<lparr>w_netlink := nw\<rparr>, w1) = (ok2, wt2, w2)" by (rule prod_cases3)
  have n: "w_netlink ?wt = new_netlink_watcher" by (simp add: new_watcher_def)
  note of = nl_open_fds [OF o laws] and gf = openSignalFd_fds [OF g laws]
  consider "\<not> ok" | "ok" "\<not> ok2" | "ok" "ok2" by blast
  then show ?thesis
  proof cases
    case 1
    then have "r = Inr (1, ?wt\<lparr>w_netlink := nw\<rparr>, w1)" using run o by (simp add: watcher_run_def n)
    with w' of 1 show ?thesis by (simp add: nl_destroy_def)
  next
    case 2
    then have "r = Inr (1, wt2, w2)" using run o g by (simp add: watcher_run_def n)
    with w' gf(1) have "w' = nl_destroy os nw w2" by simp
    with 2 of gf(2) show ?thesis by (simp add: nl_destroy_def fd_close [OF laws])
  next
    case 3
    obtain q where q: "watcher_poll junk fnm os (wt2, w2) = Some q"
      using run o g 3 by (auto simp: watcher_run_def n)
    with run w' o g 3 obtain wt3 w3 where e: "q = Inr (wt3, w3)"
      by (cases q) (auto simp: watcher_run_def n)
    obtain pm w4 where st: "stopAll os (w_processes wt3, w3) = (pm, w4)" by (rule prod.exhaust)
    have "w' = nl_destroy os (w_netlink wt3) (sys_close os (w_sigFd wt3) w4)"
      using run w' o g 3 q e st by (auto simp: watcher_run_def n)
    moreover have "same_fds fds (wt2, w2) (wt3, w3)" by (rule watcher_poll_fds [OF q laws e])
    moreover have "fds w4 = fds w3" using stopAll_fds [OF laws, of "(w_processes wt3, w3)"] st by simp
    ultimately have "fds w' = insert (w_sigFd wt2) (insert (nl_fd nw) (fds w)) - {w_sigFd wt2} - {nl_fd nw}"
      using 3 of gf by (simp add: same_fds_def nl_destroy_def fd_close [OF laws])
    moreover have "nl_fd nw \<notin> fds w" "w_sigFd wt2 \<notin> insert (nl_fd nw) (fds w)" using 3 of gf by simp_all
    ultimately show ?thesis by blast
  qed
qed

lemma poll_rounds_fds:
  assumes laws: "daemon_fd_laws os fds"
  shows "poll_rounds junk fnm os ww ww' \<Longrightarrow> same_fds fds ww ww'"
proof (induction rule: poll_rounds.induct)
  case (interrupted wt w w1 ww')
  with keepsD [OF fd_keeps(5) [OF laws] interrupted.hyps(2)] show ?case by (simp add: same_fds_def)
next
  case (round wt w nl sig w1 ww1 ww2 ww')
  have "same_fds fds (wt, w) (wt, w1)"
    using keepsD [OF fd_keeps(5) [OF laws] round.hyps(2)] by (simp add: same_fds_def)
  also have "same_fds fds (wt, w1) ww1" using round.hyps(3) processPendingMessages_fds [OF _ laws]
    by (cases nl) (auto simp: netlink_part_def same_fds_refl)
  also have "same_fds fds ww1 ww2" using round.hyps(4) handleSignals_fds [OF _ laws]
    by (cases sig) (auto simp: same_fds_refl)
  also note round.IH
  finally show ?case .
qed (rule same_fds_refl)

subsection \<open>Properties\<close>

text \<open>C16: The daemon leaks no descriptor: in every round of the poll loop, however many links, children and
  signals it has handled, the process has open what it had at the start and two more, the netlink
  socket and the signal descriptor; and when \<open>main\<close> is through, with whatever status, set up or not, it
  has open what it had at the start.\<close>

theorem daemon_holds_two_descriptors:
  assumes "daemon_fd_laws os fds"
  shows "(nl_open os new_netlink_watcher w = (True, nw, w1) \<and>
      openSignalFd os ((new_watcher cfg path)\<lparr>w_netlink := nw\<rparr>, w1) = (True, wt2, w2) \<and>
      poll_rounds junk fnm os (wt2, w2) (wt3, w3) \<longrightarrow>
        fds w3 = {nl_fd (w_netlink wt3), w_sigFd wt3} \<union> fds w \<and> nl_fd (w_netlink wt3) \<noteq> w_sigFd wt3 \<and>
        {nl_fd (w_netlink wt3), w_sigFd wt3} \<inter> fds w = {}) \<and>
    (run_watcher junk fnm os cfg path w = Some (Returned (st, w')) \<longrightarrow> fds w' = fds w)"
proof (intro conjI impI)
  assume "run_watcher junk fnm os cfg path w = Some (Returned (st, w'))"
  then show "fds w' = fds w" by (rule run_watcher_fds [OF _ assms])
next
  assume h: "nl_open os new_netlink_watcher w = (True, nw, w1) \<and>
      openSignalFd os ((new_watcher cfg path)\<lparr>w_netlink := nw\<rparr>, w1) = (True, wt2, w2) \<and>
      poll_rounds junk fnm os (wt2, w2) (wt3, w3)"
  note o = nl_open_fds [OF h [THEN conjunct1] assms]
    and g = openSignalFd_fds [OF h [THEN conjunct2, THEN conjunct1] assms]
    and p = poll_rounds_fds [OF assms h [THEN conjunct2, THEN conjunct2], unfolded same_fds_def]
  show "fds w3 = {nl_fd (w_netlink wt3), w_sigFd wt3} \<union> fds w"
    and "nl_fd (w_netlink wt3) \<noteq> w_sigFd wt3" and "{nl_fd (w_netlink wt3), w_sigFd wt3} \<inter> fds w = {}"
    using o g p by (simp_all add: insert_commute)
qed

lemma stopAll_none: "stopAll os (new_process_manager, w) = (new_process_manager, w)"
  by (simp add: stopAll_def new_process_manager_def numeral_eq_Suc)

text \<open>A platform whose world is the open descriptors and the pending signals.\<close>

definition daemon_fd_os :: "(int list \<times> nat list) os" where
  "daemon_fd_os = (let fresh = (\<lambda>w. let fd = foldr max (fst w) 0 + 1 in (fd, fd # fst w, snd w)) in idle_os\<lparr>
     sys_socket := (\<lambda>d t p. fresh), sys_signalfd := (\<lambda>fd m fl. fresh),
     sys_close := (\<lambda>fd w. (removeAll fd (fst w), snd w)),
     sys_bind := (\<lambda>fd a w. (0, w)), sys_sigprocmask_block := (\<lambda>m w. (0, w)),
     sys_poll := (\<lambda>a b w. (Poll_ready False True, w)),
     sys_read_siginfo := (\<lambda>fd w. case snd w of [] \<Rightarrow> (None, w) | s # ss \<Rightarrow> (Some s, fst w, ss))\<rparr>)"

lemma daemon_fd_os_laws: "daemon_fd_laws daemon_fd_os (\<lambda>w. set (fst w))"
proof -
  have f: "\<not> foldr max ks 0 + 1 < 0 \<and> foldr max ks 0 + 1 \<notin> set ks" for ks :: "int list"
    using foldr_max_ge(1) [of "foldr max ks 0 + 1" ks] foldr_max_ge(2) [of ks] by auto
  have "makes_fd (\<lambda>w. set (fst w)) (\<lambda>w. let fd = foldr max (fst w) 0 + 1 in (fd, fd # fst w, snd w))"
    using f by (auto simp: makes_fd_def Let_def)
  then show ?thesis
    by (auto simp: daemon_fd_laws_def daemon_fd_os_def idle_os_def keeps_def Let_def split: list.split)
qed

theorem daemon_holds_two_descriptors_witness:
  "\<exists>w'. run_watcher (\<lambda>_ _. 0) star_match daemon_fd_os sample_config [] ([0, 1, 2], [SIGTERM]) = Some (Returned (0, w')) \<and>
     set (fst w') = {0, 1, 2}"
proof -
  let ?wt = "(new_watcher sample_config [])\<lparr>w_netlink := \<lparr>nl_fd = 3\<rparr>, w_sigFd := 4\<rparr>"
  have h: "handleSignals daemon_fd_os (?wt, ([4, 3, 0, 1, 2], [SIGTERM])) = Some (?wt\<lparr>w_shouldExit := True\<rparr>, ([4, 3, 0, 1, 2], []))"
    by (subst handleSignals.simps, simp add: daemon_fd_os_def Let_def, subst handleSignals.simps, simp add: new_watcher_def)
  have p: "watcher_poll (\<lambda>_ _. 0) star_match daemon_fd_os (?wt, ([4, 3, 0, 1, 2], [SIGTERM])) =
      Some (Inr (?wt\<lparr>w_shouldExit := True\<rparr>, ([4, 3, 0, 1, 2], [])))"
    using last_round [of ?wt daemon_fd_os "([4, 3, 0, 1, 2], [SIGTERM])" False "([4, 3, 0, 1, 2], [SIGTERM])"
        "\<lambda>_ _. 0" star_match] h
    by (simp add: netlink_part_def new_watcher_def daemon_fd_os_def Let_def)
  have "\<exists>w'. run_watcher (\<lambda>_ _. 0) star_match daemon_fd_os sample_config [] ([0, 1, 2], [SIGTERM]) = Some (Returned (0, w'))"
  proof -
    have "nl_open daemon_fd_os (w_netlink (new_watcher sample_config [])) ([0, 1, 2], [SIGTERM]) =
        (True, \<lparr>nl_fd = 3\<rparr>, ([3, 0, 1, 2], [SIGTERM]))"
      by (simp add: nl_open_def requestDump_def new_watcher_def new_netlink_watcher_def daemon_fd_os_def idle_os_def Let_def)
    moreover have "openSignalFd daemon_fd_os ((new_watcher sample_config [])\<lparr>w_netlink := \<lparr>nl_fd = 3\<rparr>\<rparr>, ([3, 0, 1, 2], [SIGTERM])) =
        (True, ?wt, ([4, 3, 0, 1, 2], [SIGTERM]))"
      by (simp add: openSignalFd_def daemon_fd_os_def Let_def)
    moreover have "w_processes (new_watcher sample_config []) = new_process_manager" by (simp add: new_watcher_def)
    ultimately show ?thesis by (simp add: run_watcher_def watcher_run_def p stopAll_none Let_def)
  qed
  then obtain w' where
    w': "run_watcher (\<lambda>_ _. 0) star_match daemon_fd_os sample_config [] ([0, 1, 2], [SIGTERM]) = Some (Returned (0, w'))" by blast
  from daemon_holds_two_descriptors [OF daemon_fd_os_laws, THEN conjunct2, THEN mp, OF w'] w' show ?thesis by auto
qed

end
