(* ===== verification/Watcher_Children.thy ===== *)
theory Watcher_Children
  imports Watcher_Daemon
begin

section \<open>What the children run (watcher_iface_state.cpp, process_manager.cpp)\<close>

text \<open>
  The tables of the process manager hold process identifiers and interface names only. This theory
  relates them to the processes: which program, with which arguments, a tracked child was forked for.
\<close>

subsection \<open>The platform's side\<close>

text \<open>
  \<open>progs w\<close> are the children not yet waited for, each with what it was forked to do. A successful fork
  adds a new positive number, a successful wait removes one, a signal takes no effect on the table
  (the child has to be waited for all the same).
\<close>

definition program_laws :: "'w os \<Rightarrow> ('w \<Rightarrow> int \<rightharpoonup> child_act list) \<Rightarrow> bool" where
  "program_laws os progs \<longleftrightarrow>
     (\<forall>c w p w'. sys_fork os c w = (p, w') \<longrightarrow>
        (if p < 0 then progs w' = progs w
         else 0 < p \<and> progs w p = None \<and> progs w' = (progs w)(p \<mapsto> c))) \<and>
     (\<forall>b w p w'. sys_waitpid os b w = (p, w') \<longrightarrow>
        (if 0 < p then progs w p \<noteq> None \<and> progs w' = (progs w)(p := None) else progs w' = progs w)) \<and>
     (\<forall>p sg w. progs (snd (sys_kill os p sg w)) = progs w) \<and>
     (\<forall>w. finite (dom (progs w)))"

lemma program_laws_fork:
  "program_laws os progs \<Longrightarrow> sys_fork os c w = (p, w') \<Longrightarrow> \<not> p < 0 \<Longrightarrow>
   0 < p \<and> progs w p = None \<and> progs w' = (progs w)(p \<mapsto> c)"
  unfolding program_laws_def by metis

lemma program_laws_fork_fails:
  "program_laws os progs \<Longrightarrow> sys_fork os c w = (p, w') \<Longrightarrow> p < 0 \<Longrightarrow> progs w' = progs w"
  unfolding program_laws_def by metis

lemma program_laws_wait:
  "program_laws os progs \<Longrightarrow> sys_waitpid os b w = (p, w') \<Longrightarrow> 0 < p \<Longrightarrow>
   progs w p \<noteq> None \<and> progs w' = (progs w)(p := None)"
  unfolding program_laws_def by metis

lemma program_laws_wait_none:
  "program_laws os progs \<Longrightarrow> sys_waitpid os b w = (p, w') \<Longrightarrow> \<not> 0 < p \<Longrightarrow> progs w' = progs w"
  unfolding program_laws_def by metis

lemma program_laws_kill [simp]: "program_laws os progs \<Longrightarrow> progs (snd (sys_kill os p sg w)) = progs w"
  unfolding program_laws_def by metis

text \<open>In particular the children are the domain of the table.\<close>

lemma program_child_laws:
  assumes "program_laws os progs"
  shows "child_laws os (\<lambda>w. dom (progs w))"
  unfolding child_laws_def
proof (intro conjI allI impI)
  fix c w p w' assume f: "sys_fork os c w = (p, w')"
  show "if p < 0 then dom (progs w') = dom (progs w)
      else 0 < p \<and> p \<notin> dom (progs w) \<and> dom (progs w') = insert p (dom (progs w))"
    using program_laws_fork [OF assms f] program_laws_fork_fails [OF assms f] by auto
next
  fix b w p w' assume f: "sys_waitpid os b w = (p, w')"
  show "if 0 < p then p \<in> dom (progs w) \<and> dom (progs w') = dom (progs w) - {p} else dom (progs w') = dom (progs w)"
    using program_laws_wait [OF assms f] program_laws_wait_none [OF assms f] by auto
next
  fix p sg w show "dom (progs (snd (sys_kill os p sg w))) = dom (progs w)" using assms by simp
next
  fix w show "finite (dom (progs w))" using assms unfolding program_laws_def by metis
qed

lemma reachable_dom:
  "watcher_reachable fnm os progs cfg ww \<Longrightarrow> watcher_reachable fnm os (\<lambda>w. dom (progs w)) cfg ww"
proof (induction rule: watcher_reachable.induct)
  case (other wt w w' nw fd b)
  from other.hyps(2) have "dom (progs w') = dom (progs w)" by simp
  with other.IH show ?case by (rule watcher_reachable.other)
qed (fast intro: watcher_reachable.initial watcher_reachable.change watcher_reachable.removed watcher_reachable.reaped)+

subsection \<open>The invariant\<close>

text \<open>The arguments of the tray for an interface, and the child that is forked with them.\<close>

definition tray_argv :: "config \<Rightarrow> string \<Rightarrow> string list" where
  "tray_argv cfg name =
     [''conwatch-tray'', name, resolveTarget cfg name, resolveTarget6 cfg name, resolveLabel cfg name,
      resolveGatewayIpOverride4 cfg name, resolveGatewayIpOverride6 cfg name]"

definition tray_acts :: "config \<Rightarrow> string \<Rightarrow> child_act list" where
  "tray_acts cfg name =
     [Sigprocmask_set [], Execlp ''/usr/local/bin/conwatch-tray'' (tray_argv cfg name), Exit_now 127]"

definition runs_trays :: "config \<Rightarrow> ('w \<Rightarrow> int \<rightharpoonup> child_act list) \<Rightarrow> process_manager \<times> 'w \<Rightarrow> bool" where
  "runs_trays cfg progs pw \<longleftrightarrow>
     (\<forall>i tp. m_byIfindex (fst pw) i = Some tp \<longrightarrow> progs (snd pw) (tp_pid tp) = Some (tray_acts cfg (tp_iface tp)))"

lemma runs_trays_start:
  assumes "program_laws os progs" and "runs_trays cfg progs pw"
  shows "runs_trays cfg progs (start_with os i n (iface_args cfg n) pw)"
proof -
  obtain pm w where pw: "pw = (pm, w)" by (rule prod.exhaust)
  obtain p w' where f: "sys_fork os (tray_acts cfg n) w = (p, w')" by (rule prod.exhaust)
  then have f': "sys_fork os (tray_child [n, resolveTarget cfg n, resolveTarget6 cfg n, resolveLabel cfg n,
      resolveGatewayIpOverride4 cfg n, resolveGatewayIpOverride6 cfg n]) w = (p, w')"
    by (simp add: tray_acts_def tray_child_def tray_argv_def)
  show ?thesis
  proof (cases "isRunning pm i \<or> p < 0")
    case True
    then show ?thesis
      using assms(2) program_laws_fork_fails [OF assms(1) f]
      by (auto simp: runs_trays_def start_with_def iface_args_def pm_start_def pw f')
  next
    case False
    then show ?thesis
      using assms(2) program_laws_fork [OF assms(1) f]
      by (auto simp: runs_trays_def start_with_def iface_args_def pm_start_def pw f')
  qed
qed

lemma runs_trays_stop:
  assumes "program_laws os progs" and "runs_trays cfg progs pw"
  shows "runs_trays cfg progs (pm_stop os i pw)"
  using assms by (cases pw) (auto simp: runs_trays_def pm_stop_def Let_def split: option.split)

lemma runs_trays_forget:
  assumes "program_laws os progs" and "runs_trays cfg progs (pm, w)" and "pm_inv pm K"
    and "sys_waitpid os b w = (pid, w')" and "0 < pid"
  shows "runs_trays cfg progs (forget pid pm, w')"
  using assms(2) program_laws_wait [OF assms(1,4,5)]
  by (auto simp: runs_trays_def forget_byIfindex [OF assms(3)])

lemma runs_trays_reap:
  assumes "reapExited os pw = Some pw'" and laws: "program_laws os progs"
  shows "runs_trays cfg progs pw \<Longrightarrow> pm_ok os (\<lambda>w. dom (progs w)) pw \<Longrightarrow> runs_trays cfg progs pw'"
  using assms(1)
proof (induction rule: reapExited_induct)
  case (finished pm w pid w')
  then show ?case using program_laws_wait_none [OF laws finished.hyps] by (simp add: runs_trays_def)
next
  case (reap pm w pid w1 pw')
  have "pm_inv pm (dom (progs w))" using reap.prems(2) by (simp add: pm_ok_def)
  from runs_trays_forget [OF laws reap.prems(1) this reap.hyps(1,2)]
    pm_ok_forget [OF reap.prems(2) reap.hyps(1,2)]
  show ?case by (rule reap.IH)
qed

lemma runs_trays_change:
  "program_laws os progs \<Longrightarrow> runs_trays cfg progs pw \<Longrightarrow>
   runs_trays cfg progs (change_effect fnm os cfg old i n up pw)"
  by (auto simp: change_effect_def Let_def runs_trays_start runs_trays_stop split: option.split bool.split)

lemma reachable_runs_trays:
  assumes laws: "program_laws os progs"
  shows "watcher_reachable fnm os progs cfg ww \<Longrightarrow>
    runs_trays cfg progs (w_processes (fst ww), snd ww) \<and> watcher_inv fnm os (\<lambda>w. dom (progs w)) cfg ww"
proof (rule conjI [OF _ watcher_reachable_inv [OF program_child_laws [OF laws] reachable_dom]])
  show "watcher_reachable fnm os progs cfg ww \<Longrightarrow> runs_trays cfg progs (w_processes (fst ww), snd ww)"
  proof (induction rule: watcher_reachable.induct)
    case (initial path w)
    show ?case by (simp add: runs_trays_def new_watcher_def new_process_manager_def)
  next
    case (change ww n i up)
    have "w_cfg (fst ww) = cfg"
      using watcher_reachable_inv [OF program_child_laws [OF laws] reachable_dom [OF change.hyps(1)]]
      by (simp add: watcher_inv_def)
    with runs_trays_change [OF laws change.IH] show ?case by (simp add: onChange_effect)
  next
    case (removed ww i)
    with runs_trays_stop [OF laws removed.IH] show ?case by (simp add: onRemoved_effect)
  next
    case (reaped wt w pw)
    have "pm_ok os (\<lambda>w. dom (progs w)) (w_processes wt, w)"
      using watcher_reachable_inv [OF program_child_laws [OF laws] reachable_dom [OF reaped.hyps(1)]]
      by (simp add: watcher_inv_def)
    with runs_trays_reap [OF reaped.hyps(2) laws] reaped.IH show ?case by simp
  next
    case (other wt w w' nw fd b)
    then show ?case by (simp add: runs_trays_def)
  qed
qed assumption

subsection \<open>Properties\<close>

text \<open>C4: In every reachable state of the watcher each tracked child is a process not yet waited for that was
  forked to unblock its signals and execute the tray, with exactly the arguments that the configuration
  resolves for the name its interface has now; that interface is up by the last link event and
  eligible. So no tray keeps running with the settings of another interface or of a former name.\<close>

theorem tracked_children_run_their_tray:
  assumes "program_laws os progs" and "watcher_reachable fnm os progs cfg ww"
    and "m_byIfindex (w_processes (fst ww)) i = Some tp"
  shows "w_ifaces (fst ww) i = Some \<lparr>if_name = tp_iface tp, was_up = True\<rparr> \<and>
    isEligible fnm cfg (tp_iface tp) \<and>
    progs (snd ww) (tp_pid tp) =
      Some [Sigprocmask_set [], Execlp ''/usr/local/bin/conwatch-tray'' (tray_argv cfg (tp_iface tp)), Exit_now 127]"
proof -
  have "progs (snd ww) (tp_pid tp) = Some (tray_acts cfg (tp_iface tp))"
    using reachable_runs_trays [OF assms(1,2)] assms(3) by (simp add: runs_trays_def)
  with tracked_only_when_up_and_eligible [OF program_child_laws [OF assms(1)] reachable_dom [OF assms(2)] assms(3)]
  show ?thesis by (simp add: tray_acts_def)
qed

text \<open>A platform whose world is the children with what they do, and the datagrams to be received.\<close>

definition prog_os :: "((int \<times> child_act list) list \<times> bytes list) os" where
  "prog_os = idle_os\<lparr>
     sys_fork := (\<lambda>c w. let p = foldr max (map fst (fst w)) 0 + 1 in (p, (p, c) # fst w, snd w)),
     sys_waitpid := (\<lambda>b w. case filter (\<lambda>k. 0 < k) (map fst (fst w)) of
        [] \<Rightarrow> (-1, w) | k # _ \<Rightarrow> (k, AList.delete k (fst w), snd w)),
     sys_kill := (\<lambda>p sg w. (0, w)),
     sys_recv := (\<lambda>fd dw w. case snd w of [] \<Rightarrow> (None, w) | d # ds \<Rightarrow> (Some d, fst w, ds))\<rparr>"

abbreviation prog_table :: "(int \<times> child_act list) list \<times> bytes list \<Rightarrow> int \<rightharpoonup> child_act list" where
  "prog_table w \<equiv> map_of (fst w)"

lemma prog_os_fork_new: "map_of ps (foldr max (map fst ps) 0 + 1) = None" "0 < foldr max (map fst ps) (0 :: int) + 1"
  using foldr_max_ge(1) [of "foldr max (map fst ps) 0 + 1" "map fst ps"] foldr_max_ge(2) [of "map fst ps"]
  by (auto simp: map_of_eq_None_iff simp del: map_map list.set_map)

lemma prog_os_laws: "program_laws prog_os prog_table"
  unfolding program_laws_def
proof (intro conjI allI impI)
  fix c w p w' assume "sys_fork prog_os c w = (p, w')"
  then have "p = foldr max (map fst (fst w)) 0 + 1" "w' = ((p, c) # fst w, snd w)"
    by (auto simp: prog_os_def Let_def)
  with prog_os_fork_new [of "fst w"] show "if p < 0 then prog_table w' = prog_table w
      else 0 < p \<and> prog_table w p = None \<and> prog_table w' = (prog_table w)(p \<mapsto> c)" by simp
next
  fix b w p w' assume h: "sys_waitpid prog_os b w = (p, w')"
  show "if 0 < p then prog_table w p \<noteq> None \<and> prog_table w' = (prog_table w)(p := None)
      else prog_table w' = prog_table w"
  proof (cases "filter (\<lambda>k. 0 < k) (map fst (fst w))")
    case Nil
    with h show ?thesis by (auto simp: prog_os_def)
  next
    case (Cons k ks)
    have "k \<in> set (filter (\<lambda>k. 0 < k) (map fst (fst w)))" unfolding Cons by simp
    then have "k \<in> set (map fst (fst w))" "0 < k" by (simp_all only: set_filter mem_Collect_eq)
    moreover have "p = k" "w' = (AList.delete k (fst w), snd w)" using h Cons by (auto simp: prog_os_def)
    ultimately show ?thesis by (simp add: map_of_eq_None_iff)
  qed
next
  fix p sg w show "prog_table (snd (sys_kill prog_os p sg w)) = prog_table w" by (simp add: prog_os_def)
next
  fix w :: "(int \<times> child_act list) list \<times> bytes list" show "finite (dom (prog_table w))" by (rule finite_dom_map_of)
qed

lemma prog_os_quiet: "quiet_laws prog_os prog_table"
  unfolding quiet_laws_def by (simp add: prog_os_def idle_os_def split: list.split)

lemma prog_os_fork_succeeds: "fork_succeeds prog_os"
  using prog_os_fork_new(2) [where 'a = "child_act list"] by (simp add: fork_succeeds_def prog_os_def Let_def)

lemma sample_child:
  "onChange star_match prog_os 3 ''wlan0'' True (new_watcher sample_config [], [], []) =
   ((new_watcher sample_config [])\<lparr>w_processes :=
      \<lparr>m_byIfindex = [3 \<mapsto> \<lparr>tp_pid = 1, tp_iface = ''wlan0''\<rparr>], m_ifindexByPid = [(1, 3)]\<rparr>,
      w_ifaces := [3 \<mapsto> \<lparr>if_name = ''wlan0'', was_up = True\<rparr>]\<rparr>, [(1, tray_acts sample_config ''wlan0'')], [])"
  by (simp add: onChange_def new_watcher_def startIfEligible_def isEligible_def sample_config_def tray_acts_def
      tray_child_def tray_argv_def pm_start_def prog_os_def new_process_manager_def isRunning_def
      resolveTarget_def resolveTarget6_def resolveLabel_def resolveGatewayIpOverride4_def resolveGatewayIpOverride6_def)

theorem tracked_children_run_their_tray_witness:
  "prog_table ([(1, tray_acts sample_config ''wlan0'')], []) 1 =
    Some [Sigprocmask_set [], Execlp ''/usr/local/bin/conwatch-tray''
      [''conwatch-tray'', ''wlan0'', ''9.9.9.9'', [], ''wlan0'', [], []], Exit_now 127]"
proof -
  let ?ww = "onChange star_match prog_os 3 ''wlan0'' True (new_watcher sample_config [], [], [])"
  have R: "watcher_reachable star_match prog_os prog_table sample_config ?ww"
    by (rule watcher_reachable.change [OF watcher_reachable.initial]) simp
  have a: "tray_argv sample_config ''wlan0'' = [''conwatch-tray'', ''wlan0'', ''9.9.9.9'', [], ''wlan0'', [], []]"
    by (simp add: tray_argv_def sample_config_def resolveTarget_def resolveTarget6_def resolveLabel_def
      resolveGatewayIpOverride4_def resolveGatewayIpOverride6_def)
  have "m_byIfindex (w_processes (fst ?ww)) 3 = Some \<lparr>tp_pid = 1, tp_iface = ''wlan0''\<rparr>"
    unfolding sample_child by simp
  from tracked_children_run_their_tray [OF prog_os_laws R this] show ?thesis
    unfolding sample_child by (simp add: a)
qed

end
