(* ===== verification/Checksum.thy ===== *)
theory Checksum
  imports Prelude
begin

section \<open>The Internet checksum (ping_monitor_addr.cpp)\<close>

text \<open>
  \<open>PingMonitor::checksum\<close>, in 32- and 16-bit words, and its equivalence with the definition of
  RFC 1071. The host is little-endian, so a 16-bit word is its low byte first.
\<close>

fun sum16 :: "bytes \<Rightarrow> 32 word \<Rightarrow> 32 word" where
  "sum16 [] s = s"
| "sum16 [b] s = s + ucast b"
| "sum16 (a # b # bs) s = sum16 bs (s + of_nat (unat a + 256 * unat b))"

definition checksum :: "bytes \<Rightarrow> u16" where
  "checksum bs =
     (let sum = sum16 bs 0;
          sum = drop_bit 16 sum + (sum AND 0xffff);
          sum = sum + drop_bit 16 sum
      in ucast (NOT sum))"

text \<open>The 16-bit words of a buffer, low byte first, an odd last byte as a word of its own.\<close>

fun words16 :: "bytes \<Rightarrow> nat list" where
  "words16 [] = []"
| "words16 [b] = [unat b]"
| "words16 (a # b # bs) = (unat a + 256 * unat b) # words16 bs"

definition word_sum :: "bytes \<Rightarrow> nat" where
  "word_sum bs = sum_list (words16 bs)"

lemma word_sum_simps [simp]:
  "word_sum [] = 0" "word_sum [b] = unat b" "word_sum (a # b # bs) = unat a + 256 * unat b + word_sum bs"
  by (simp_all add: word_sum_def)

lemma unat_byte: "unat (b :: u8) \<le> 255"
  using unsigned_less [of b, where 'a = nat] by simp

lemma word_sum_bound: "word_sum bs \<le> 65535 * length bs"
proof (induction bs rule: words16.induct)
  case (2 b) then show ?case using unat_byte [of b] by simp
next
  case (3 a b bs) then show ?case using unat_byte [of a] unat_byte [of b] by simp
qed simp

lemma unat_add_small: "unat a + unat b < 2 ^ LENGTH('n :: len) \<Longrightarrow> unat (a + b :: 'n word) = unat a + unat b"
  by (simp add: unat_word_ariths)

lemma unat_sum16: "unat s + word_sum bs < 2 ^ 32 \<Longrightarrow> unat (sum16 bs s) = unat s + word_sum bs"
proof (induction bs s rule: sum16.induct)
  case (2 b s)
  have "unat (ucast b :: 32 word) = unat b"
    using unat_byte [of b] by (simp add: unsigned_ucast_eq take_bit_nat_eq_self)
  with 2 show ?case by (simp add: unat_add_small)
next
  case (3 a b bs s)
  have "unat (of_nat (unat a + 256 * unat b) :: 32 word) = unat a + 256 * unat b"
    using unat_byte [of a] unat_byte [of b] by (simp only: unat_of_nat) simp
  with 3 show ?case by (simp add: unat_add_small del: of_nat_add of_nat_mult)
qed simp

text \<open>The two carry folds, on numbers.\<close>

definition fold16 :: "nat \<Rightarrow> nat" where
  "fold16 s = (let t = s div 65536 + s mod 65536 in (t + t div 65536) mod 65536)"

lemma unat_drop16: "unat (drop_bit 16 (x :: 32 word)) = unat x div 65536"
  by (simp add: drop_bit_eq_div unat_div_distrib)

lemma unat_low16: "unat ((x :: 32 word) AND 0xffff) = unat x mod 65536"
proof -
  have "x AND 0xffff = take_bit 16 x" by (simp add: take_bit_eq_mask mask_eq_exp_minus_1)
  then have "unat (x AND 0xffff) = take_bit 16 (unat x)" by (simp only: unsigned_take_bit_eq)
  then show ?thesis by (simp add: take_bit_eq_mod)
qed

lemma unat_not_low16: "unat (ucast (NOT (x :: 32 word)) :: u16) = 65535 - unat x mod 65536"
proof -
  have "ucast (NOT x) = NOT (ucast x :: u16)"
    by (rule bit_word_eqI) (simp add: bit_simps)
  then have "ucast (NOT x) = (-1 :: u16) - ucast x" by (simp add: not_eq_complement)
  moreover have "unat (ucast x :: u16) = unat x mod 65536"
    by (simp add: unsigned_ucast_eq take_bit_eq_mod)
  moreover have "unat (-1 :: u16) = 65535" by (simp add: unsigned_minus_1_eq_mask mask_eq_exp_minus_1)
  ultimately show ?thesis by (simp add: unat_sub)
qed

lemma unat_checksum: "word_sum bs < 2 ^ 32 \<Longrightarrow> unat (checksum bs) = 65535 - fold16 (word_sum bs)"
proof -
  assume w: "word_sum bs < 2 ^ 32"
  let ?s = "sum16 bs 0"
  let ?t = "drop_bit 16 ?s + (?s AND 0xffff)"
  have s: "unat ?s = word_sum bs" using w unat_sum16 [of 0 bs] by simp
  have q: "word_sum bs div 65536 < 65536" using w by (simp add: less_mult_imp_div_less)
  have r: "word_sum bs mod 65536 < 65536" by simp
  have t: "unat ?t = word_sum bs div 65536 + word_sum bs mod 65536"
    using q r by (subst unat_add_small) (simp_all add: unat_drop16 unat_low16 s)
  have "unat ?t div 65536 \<le> 1" using q r unfolding t by linarith
  then have "unat (?t + drop_bit 16 ?t) = unat ?t + unat ?t div 65536"
    using q r unfolding t [symmetric] by (subst unat_add_small) (simp_all add: unat_drop16 t)
  then show ?thesis by (simp add: checksum_def Let_def unat_not_low16 fold16_def t)
qed


subsection \<open>The reference: RFC 1071\<close>

text \<open>One's complement addition of 16-bit words, the carry brought around at every addition.\<close>

definition oc_add :: "nat \<Rightarrow> nat \<Rightarrow> nat" where
  "oc_add a b = (let s = a + b in s mod 65536 + s div 65536)"

definition internet_checksum :: "bytes \<Rightarrow> nat" where
  "internet_checksum bs = 65535 - fold (\<lambda>x s. oc_add s x) (words16 bs) 0"

text \<open>The one's complement sum as a function of the plain sum.\<close>

definition oc_norm :: "nat \<Rightarrow> nat" where
  "oc_norm s = (if s = 0 then 0 else (s - 1) mod 65535 + 1)"

lemma oc_norm_eq: "0 < t \<Longrightarrow> t \<le> 65535 \<Longrightarrow> s = 65535 * k + t \<Longrightarrow> oc_norm s = t"
proof -
  assume t: "0 < t" "t \<le> 65535" and s: "s = 65535 * k + t"
  have "(65535 * k + (t - 1)) mod 65535 = (t - 1) mod 65535" by (rule mod_mult_self4)
  moreover have "s - 1 = 65535 * k + (t - 1)" using t s by simp
  ultimately show ?thesis using t s by (simp add: oc_norm_def)
qed

lemma fold16_norm: "s < 2 ^ 32 \<Longrightarrow> fold16 s = oc_norm s"
proof -
  assume s: "s < 2 ^ 32"
  define q r where "q = s div 65536" and "r = s mod 65536"
  have sq: "s = 65536 * q + r" and r: "r < 65536" by (simp_all add: q_def r_def)
  have q: "q < 65536" using s by (simp add: q_def less_mult_imp_div_less)
  have f: "fold16 s = (q + r + (q + r) div 65536) mod 65536"
    by (simp add: fold16_def Let_def q_def r_def)
  consider "q + r = 0" | "0 < q + r" "q + r < 65536" | "65536 \<le> q + r" by linarith
  then show ?thesis
  proof cases
    case 1
    then show ?thesis using f sq by (simp add: oc_norm_def)
  next
    case 2
    then have "fold16 s = q + r" using f by simp
    moreover have "oc_norm s = q + r" using 2 sq by (intro oc_norm_eq [of _ _ q]) simp_all
    ultimately show ?thesis by simp
  next
    case 3
    define u where "u = q + r - 65536"
    have u: "q + r = 65536 + u" "u < 65535" using 3 q r by (simp_all add: u_def)
    then have "(q + r) div 65536 = 1" by simp
    moreover have "q + r + 1 = (u + 1) + 65536" using u by simp
    ultimately have "fold16 s = ((u + 1) + 65536) mod 65536" using f by simp
    then have "fold16 s = u + 1" using u(2) by (simp only: mod_add_self2) simp
    moreover have "oc_norm s = u + 1" using u sq by (intro oc_norm_eq [of _ _ "q + 1"]) simp_all
    ultimately show ?thesis by simp
  qed
qed

lemma oc_norm_add: "b \<le> 65535 \<Longrightarrow> oc_add (oc_norm a) b = oc_norm (a + b)"
proof (cases "a = 0")
  case True
  assume b: "b \<le> 65535"
  then have "oc_norm b = b" by (cases "b = 0") (auto simp: oc_norm_def)
  with True b show ?thesis by (simp add: oc_add_def oc_norm_def Let_def)
next
  case False
  assume b: "b \<le> 65535"
  define r k where "r = (a - 1) mod 65535" and "k = (a - 1) div 65535"
  have "a - 1 = 65535 * k + r" and r: "r < 65535" by (simp_all add: r_def k_def)
  with False have a: "a = 65535 * k + (r + 1)" by simp
  have n: "oc_norm a = r + 1" using False by (simp add: oc_norm_def r_def)
  show ?thesis
  proof (cases "r + 1 + b < 65536")
    case True
    then have "oc_add (oc_norm a) b = r + 1 + b" by (simp add: oc_add_def n)
    moreover have "oc_norm (a + b) = r + 1 + b"
      using True a by (intro oc_norm_eq [of _ _ k]) simp_all
    ultimately show ?thesis by simp
  next
    case False
    define u where "u = r + 1 + b - 65536"
    have u: "r + 1 + b = 65536 + u" "u < 65535" using False r b by (simp_all add: u_def)
    then have "oc_add (oc_norm a) b = u + 1" by (simp add: oc_add_def n)
    moreover have "oc_norm (a + b) = u + 1"
      using u a by (intro oc_norm_eq [of _ _ "k + 1"]) simp_all
    ultimately show ?thesis by simp
  qed
qed

lemma words16_bound: "x \<in> set (words16 bs) \<Longrightarrow> x \<le> 65535"
proof (induction bs rule: words16.induct)
  case (2 b) then show ?case using unat_byte [of b] by simp
next
  case (3 a b bs) then show ?case using unat_byte [of a] unat_byte [of b] by auto
qed simp

lemma fold_oc_add: "(\<And>x. x \<in> set xs \<Longrightarrow> x \<le> 65535) \<Longrightarrow> fold (\<lambda>x s. oc_add s x) xs (oc_norm s) = oc_norm (s + sum_list xs)"
  by (induction xs arbitrary: s) (simp_all add: oc_norm_add add.assoc)

lemma internet_checksum_norm: "internet_checksum bs = 65535 - oc_norm (word_sum bs)"
  using fold_oc_add [of "words16 bs" 0, OF words16_bound]
  by (simp add: internet_checksum_def word_sum_def oc_norm_def)

lemma word_sum_small: "length bs \<le> 65536 \<Longrightarrow> word_sum bs < 4294967296"
  using word_sum_bound [of bs] by simp

lemma checksum_internet: "length bs \<le> 65536 \<Longrightarrow> unat (checksum bs) = internet_checksum bs"
  by (simp add: unat_checksum word_sum_small fold16_norm internet_checksum_norm)

lemma word_sum_append: "even (length xs) \<Longrightarrow> word_sum (xs @ ys) = word_sum xs + word_sum ys"
  by (induction xs rule: words16.induct) simp_all

lemma word_sum_le16: "n < 65536 \<Longrightarrow> word_sum (le16 n) = n"
  by (simp add: le16_def)

lemma oc_norm_complement: "oc_norm (s + (65535 - oc_norm s)) = 65535"
proof (cases "s = 0")
  case False
  define r k where "r = (s - 1) mod 65535" and "k = (s - 1) div 65535"
  have "s - 1 = 65535 * k + r" and r: "r < 65535" by (simp_all add: r_def k_def)
  with False have "s = 65535 * k + (r + 1)" by simp
  moreover have "oc_norm s = r + 1" using False by (simp add: oc_norm_def r_def)
  ultimately show ?thesis using r by (intro oc_norm_eq [of _ _ k]) simp_all
qed (simp add: oc_norm_def)

lemma checksum_field:
  assumes "even (length pre)" and "length pre + 2 + length post \<le> 65536"
  shows "checksum (pre @ le16 (unat (checksum (pre @ [0, 0] @ post))) @ post) = 0"
proof -
  let ?z = "pre @ [0, 0] @ post" and ?c = "unat (checksum (pre @ [0, 0] @ post))"
  have c: "?c = 65535 - oc_norm (word_sum ?z)"
    using assms(2) by (simp add: checksum_internet internet_checksum_norm)
  have "?c < 65536" unfolding c by simp
  then have "word_sum (pre @ le16 ?c @ post) = word_sum ?z + ?c"
    using assms(1) by (simp add: word_sum_append word_sum_le16)
  then have "internet_checksum (pre @ le16 ?c @ post) = 65535 - oc_norm (word_sum ?z + ?c)"
    by (simp only: internet_checksum_norm)
  then have "internet_checksum (pre @ le16 ?c @ post) = 0"
    by (simp only: c oc_norm_complement)
  moreover have "unat (checksum (pre @ le16 ?c @ post)) = internet_checksum (pre @ le16 ?c @ post)"
    using assms(2) by (intro checksum_internet) simp
  ultimately show ?thesis by (simp add: unsigned_eq_0_iff)
qed

subsection \<open>Properties\<close>

text \<open>C24: For every buffer of up to 65536 bytes, of even or odd length, \<open>checksum\<close>, which adds in 32
  bits and folds the carries twice at the end, is the Internet checksum of RFC 1071, the
  complement of the one's complement sum with the carry brought around at each addition; no
  intermediate sum overflows.\<close>

theorem checksum_rfc1071:
  assumes "length bs \<le> 65536"
  shows "unat (checksum bs) = internet_checksum bs"
  using assms by (rule checksum_internet)

theorem checksum_rfc1071_witness:
  "unat (checksum [0xff, 0xff, 0x01, 0x00, 0x03]) = 65535 - 4"
  using checksum_rfc1071 [of "[0xff, 0xff, 0x01, 0x00, 0x03]"]
  by (simp add: internet_checksum_def oc_add_def)

text \<open>A packet whose 16-bit checksum field, at any even position, is filled in with the checksum
  of the packet with a zero there has checksum zero, which is how a receiver verifies it.\<close>

lemma checksum_verifies:
  assumes "even (length pre)" and "length pre + 2 + length post \<le> 65536"
  shows "checksum (pre @ le16 (unat (checksum (pre @ [0, 0] @ post))) @ post) = 0"
  using assms by (rule checksum_field)

lemma checksum_verifies_witness:
  "checksum ([8, 0] @ le16 (unat (checksum ([8, 0] @ [0, 0] @ [1, 2, 3]))) @ [1, 2, 3]) = 0"
  by (rule checksum_verifies) simp_all


end
