(* ===== verification/Icmp.thy ===== *)
theory Icmp
  imports Checksum Platform
begin

section \<open>Echo messages and interface addresses (ping_monitor_addr.cpp, ping_monitor_socket4.cpp, ping_monitor_socket6.cpp)\<close>

text \<open>
  The echo requests the monitor sends, how it recognises a reply, and the loop that waits for
  one, for both protocols. The identifier and sequence number are written in host order, as the
  code assigns them.
\<close>

subsection \<open>Requests\<close>

text \<open>The 24 bytes of \<open>packet\<close>: type, code, checksum, identifier, sequence number, payload.\<close>

definition echo_packet :: "u8 \<Rightarrow> u16 \<Rightarrow> u16 \<Rightarrow> u16 \<Rightarrow> bytes" where
  "echo_packet ty ck ident seq =
     [ty, 0] @ le16 (unat ck) @ le16 (unat ident) @ le16 (unat seq) @ replicate 16 0x42"

text \<open>\<open>ICMP_ECHO\<close>, with the checksum; \<open>ICMP6_ECHO_REQUEST\<close>, whose checksum the kernel fills in.\<close>

definition request4 :: "u16 \<Rightarrow> u16 \<Rightarrow> bytes" where
  "request4 ident seq = echo_packet 8 (checksum (echo_packet 8 0 ident seq)) ident seq"

definition request6 :: "u16 \<Rightarrow> u16 \<Rightarrow> bytes" where
  "request6 ident seq = echo_packet 128 0 ident seq"

lemma length_echo_packet [layout_simps]: "length (echo_packet ty ck ident seq) = 24"
  by (simp add: echo_packet_def)

lemma length_requests [layout_simps]: "length (request4 ident seq) = 24" "length (request6 ident seq) = 24"
  by (simp_all add: request4_def request6_def layout_simps)

subsection \<open>Replies\<close>

text \<open>
  An IPv4 raw socket delivers the IP header first; its length in words is the low nibble of the
  first byte. \<open>None\<close> is a read outside the array.
\<close>

definition isMatchingReply4 :: "nat \<Rightarrow> buf \<Rightarrow> nat \<Rightarrow> u16 \<Rightarrow> bool option" where
  "isMatchingReply4 cap m n pid =
     do {
       b \<leftarrow> rd8 cap m 0;
       let ipHeaderLen = (b mod 16) * 4;
       if n < ipHeaderLen + 8 then Some False
       else do {
         ty \<leftarrow> rd8 cap m ipHeaderLen;
         if ty \<noteq> 0 then Some False
         else do { ident \<leftarrow> rd16 cap m (ipHeaderLen + 4); Some (ident = unat pid) }
       }
     }"

definition isMatchingReply6 :: "nat \<Rightarrow> buf \<Rightarrow> nat \<Rightarrow> u16 \<Rightarrow> bool option" where
  "isMatchingReply6 cap m n pid =
     (if n < 8 then Some False
      else do {
        ty \<leftarrow> rd8 cap m 0;
        if ty \<noteq> 129 then Some False
        else do { ident \<leftarrow> rd16 cap m 4; Some (ident = unat pid) }
      })"

text \<open>
  The loop of \<open>recvReply4\<close> and \<open>recvReply6\<close> over a 512-byte array. Each \<open>recvfrom\<close> waits up to the
  socket's timeout; \<open>None\<close> is a loop that does not end or a read outside the array.
\<close>

partial_function (option) recv_loop ::
  "(nat \<Rightarrow> buf \<Rightarrow> nat \<Rightarrow> u16 \<Rightarrow> bool option) \<Rightarrow> 'w os \<Rightarrow> int \<Rightarrow> u16 \<Rightarrow> buf \<Rightarrow> 'w \<Rightarrow> (bool \<times> 'w) option" where
  "recv_loop matching os fd pid m w =
     (case sys_recv os fd False w of
        (None, w) \<Rightarrow> Some (False, w)
      | (Some bs, w) \<Rightarrow>
          if bs = [] then Some (False, w)
          else do {
            let (n, m) = received 512 bs m;
            b \<leftarrow> matching 512 m n pid;
            if b then Some (True, w) else recv_loop matching os fd pid m w
          })"

subsection \<open>The two protocols\<close>

text \<open>What the code has twice, once for each protocol.\<close>

record family =
  fam_af :: nat
  fam_ipproto :: nat
  fam_sockaddr :: "bytes \<Rightarrow> sockaddr"
  fam_request :: "u16 \<Rightarrow> u16 \<Rightarrow> bytes"
  fam_matching :: "nat \<Rightarrow> buf \<Rightarrow> nat \<Rightarrow> u16 \<Rightarrow> bool option"

definition inet4 :: family where
  "inet4 = \<lparr>fam_af = AF_INET, fam_ipproto = IPPROTO_ICMP, fam_sockaddr = Sockaddr_in,
     fam_request = request4, fam_matching = isMatchingReply4\<rparr>"

definition inet6 :: family where
  "inet6 = \<lparr>fam_af = AF_INET6, fam_ipproto = IPPROTO_ICMPV6, fam_sockaddr = Sockaddr_in6,
     fam_request = request6, fam_matching = isMatchingReply6\<rparr>"

subsection \<open>Interface addresses\<close>

text \<open>\<open>IN6_IS_ADDR_LINKLOCAL\<close>: the first ten bits are those of \<open>fe80::/10\<close>.\<close>

fun is_link_local :: "bytes \<Rightarrow> bool" where
  "is_link_local (a # b # _) \<longleftrightarrow> a = 0xfe \<and> b AND 0xc0 = 0x80"
| "is_link_local _ \<longleftrightarrow> False"

definition matchesIfaceAddress :: "ifaddr \<Rightarrow> string \<Rightarrow> nat \<Rightarrow> bool" where
  "matchesIfaceAddress a iface family =
     (case ifa_addr a of
        None \<Rightarrow> False
      | Some (af, bs) \<Rightarrow>
          if af \<noteq> family then False
          else if iface \<noteq> ifa_name a then False
          else if family = AF_INET6 \<and> is_link_local bs then False
          else True)"

definition ifaceHasAddress :: "'w os \<Rightarrow> string \<Rightarrow> nat \<Rightarrow> 'w \<Rightarrow> bool \<times> 'w" where
  "ifaceHasAddress os iface family w =
     (case sys_getifaddrs os w of
        (None, w) \<Rightarrow> (False, w)
      | (Some addrs, w) \<Rightarrow> (list_ex (\<lambda>a. matchesIfaceAddress a iface family) addrs, w))"

lemma top_two_bits: "c AND 0xc0 = 0x80 \<longleftrightarrow> 0x80 \<le> unat c \<and> unat c \<le> 0xbf" for c :: u8
proof -
  have "(0xc0 :: u8) = NOT (mask 6)" by code_simp
  then have "c AND 0xc0 = c AND NOT (mask 6)" by (simp only:)
  also have "\<dots> = push_bit 6 (drop_bit 6 c)" by (rule bit_word_eqI) (auto simp: bit_simps)
  finally have "unat (c AND 0xc0) = unat (push_bit 6 (drop_bit 6 c))" by simp
  also have "\<dots> = 64 * (unat c div 64) mod 256"
    by (simp add: push_bit_eq_mult drop_bit_eq_div unat_div_distrib unat_word_ariths mult.commute)
  finally have "unat (c AND 0xc0) = 64 * (unat c div 64)"
    using unsigned_less [of c, where 'a = nat] by simp
  moreover have "c AND 0xc0 = 0x80 \<longleftrightarrow> unat (c AND 0xc0) = 0x80" by (simp only: word_unat_eq_iff) simp
  ultimately show ?thesis by auto
qed

subsection \<open>What the monitor relies on of a protocol\<close>

text \<open>
  \<open>header h\<close>: \<open>h\<close> is what the socket delivers before the ICMP message. A match never reads outside
  the received bytes, and accepts an ICMP message exactly when it is of the reply type and has
  the identifier.
\<close>

locale echo_family =
  fixes matching :: "nat \<Rightarrow> buf \<Rightarrow> nat \<Rightarrow> u16 \<Rightarrow> bool option"
    and header :: "bytes \<Rightarrow> bool"
    and reply_type :: u8
  assumes match_local: "0 < n \<Longrightarrow> n \<le> cap \<Longrightarrow> \<forall>i<n. m i = m' i \<Longrightarrow>
      \<exists>b. matching cap m n pid = Some b \<and> matching cap m' n pid = Some b"
    and match_icmp: "header h \<Longrightarrow> length h + 8 + length data \<le> cap \<Longrightarrow>
      matching cap (store (h @ [ty, code] @ le16 ck @ le16 ident @ le16 sq @ data) m)
        (length h + 8 + length data) pid = Some (ty = reply_type \<and> ident mod 65536 = unat pid)"
begin

text \<open>Acceptance as a property of the datagram alone.\<close>

definition accepts :: "u16 \<Rightarrow> bytes \<Rightarrow> bool" where
  "accepts pid bs \<longleftrightarrow> matching 512 (store (take 512 bs) (\<lambda>_. 0)) (length (take 512 bs)) pid = Some True"

lemma match_received:
  "bs \<noteq> [] \<Longrightarrow> matching 512 (store (take 512 bs) m) (length (take 512 bs)) pid = Some (accepts pid bs)"
  using match_local [of "length (take 512 bs)" 512 "store (take 512 bs) m" "store (take 512 bs) (\<lambda>_. 0)" pid]
  by (auto simp: accepts_def store_def)

lemmas match_received_min = match_received [simplified length_take]

lemma accepts_icmp:
  assumes "header h" and "length h + 8 + length data \<le> 512"
  shows "accepts pid (h @ [ty, code] @ le16 ck @ le16 ident @ le16 sq @ data) \<longleftrightarrow>
    ty = reply_type \<and> ident mod 65536 = unat pid"
proof -
  let ?bs = "h @ [ty, code] @ le16 ck @ le16 ident @ le16 sq @ data"
  have n: "length ?bs = length h + 8 + length data" by simp
  then have "take 512 ?bs = ?bs" using assms(2) by (intro take_all) simp
  with match_icmp [OF assms, of ty code ck ident sq "\<lambda>_. 0" pid] show ?thesis
    by (simp only: accepts_def n option.inject) simp
qed

end

subsection \<open>Both protocols are such\<close>

text \<open>An IPv4 header: its low nibble counts its 32-bit words, at least five.\<close>

definition ip_header :: "bytes \<Rightarrow> bool" where
  "ip_header h \<longleftrightarrow> 20 \<le> length h \<and> length h = (unat (hd h) mod 16) * 4"

lemma rd16_mod:
  "holds m i (le16 n) \<Longrightarrow> i + 1 < cap \<Longrightarrow> rd16 cap m i = Some (n mod 65536)"
proof -
  assume h: "holds m i (le16 n)" "i + 1 < cap"
  have "n mod (256 * 256) = 256 * (n div 256 mod 256) + n mod 256" by (rule mod_mult2_eq)
  with h show ?thesis by (simp add: rd16_def le16_def)
qed

lemma icmp_reads:
  assumes "length h + 8 + length data \<le> cap"
    and m': "m' = store (h @ [ty, code] @ le16 ck @ le16 ident @ le16 sq @ data) m"
  shows "rd8 cap m' (length h) = Some (unat ty)"
    and "rd16 cap m' (length h + 4) = Some (ident mod 65536)"
    and "h \<noteq> [] \<Longrightarrow> rd8 cap m' 0 = Some (unat (hd h))"
proof -
  have "holds m' 0 (h @ [ty, code] @ le16 ck @ le16 ident @ le16 sq @ data)"
    unfolding m' by (rule holds_store)
  then have all: "holds m' 0 ((h @ [ty, code] @ le16 ck) @ le16 ident @ le16 sq @ data)"
    by (simp only: append_assoc)
  have "length (h @ [ty, code] @ le16 ck) = length h + 4" by simp
  with all have "holds m' 0 (h @ [ty, code] @ le16 ck)" and h3: "holds m' (length h + 4) (le16 ident)"
    by (simp_all only: holds_append add_0)
  then have h: "holds m' 0 h" "m' (length h) = ty" by simp_all
  show "rd8 cap m' (length h) = Some (unat ty)" using assms(1) h(2) by (simp add: rd8_def)
  show "rd16 cap m' (length h + 4) = Some (ident mod 65536)" using assms(1) h3 by (intro rd16_mod) simp_all
  show "rd8 cap m' 0 = Some (unat (hd h))" if "h \<noteq> []"
    using assms(1) h(1) that by (cases h) (simp_all add: rd8_def)
qed

lemma isMatchingReply4_value:
  "0 < n \<Longrightarrow> n \<le> cap \<Longrightarrow> isMatchingReply4 cap m n pid =
     (let l = (unat (m 0) mod 16) * 4
      in Some (l + 8 \<le> n \<and> m l = 0 \<and> unat (m (l + 4)) + 256 * unat (m (l + 5)) = unat pid))"
  by (auto simp: isMatchingReply4_def rd8_def rd16_def Let_def unsigned_eq_0_iff add_ac)

lemma isMatchingReply6_value:
  "n \<le> cap \<Longrightarrow> isMatchingReply6 cap m n pid =
     Some (8 \<le> n \<and> m 0 = 129 \<and> unat (m 4) + 256 * unat (m 5) = unat pid)"
  by (auto simp: isMatchingReply6_def rd8_def rd16_def word_unat_eq_iff)

interpretation echo4: echo_family isMatchingReply4 ip_header 0
proof unfold_locales
  fix n cap :: nat and m m' :: buf and pid assume n: "0 < n" "n \<le> cap" and eq: "\<forall>i<n. m i = m' i"
  then show "\<exists>b. isMatchingReply4 cap m n pid = Some b \<and> isMatchingReply4 cap m' n pid = Some b"
    by (auto simp: isMatchingReply4_value Let_def)
next
  fix h data :: bytes and cap ck ident sq :: nat and ty code m pid
  assume h: "ip_header h" and fit: "length h + 8 + length data \<le> cap"
  then have "h \<noteq> []" by (auto simp: ip_header_def)
  with icmp_reads [OF fit refl] h
  show "isMatchingReply4 cap (store (h @ [ty, code] @ le16 ck @ le16 ident @ le16 sq @ data) m)
      (length h + 8 + length data) pid = Some (ty = 0 \<and> ident mod 65536 = unat pid)"
    by (auto simp: isMatchingReply4_def ip_header_def unsigned_eq_0_iff)
qed

interpretation echo6: echo_family isMatchingReply6 "\<lambda>h. h = []" 129
proof unfold_locales
  fix n cap :: nat and m m' :: buf and pid assume n: "0 < n" "n \<le> cap" and eq: "\<forall>i<n. m i = m' i"
  then show "\<exists>b. isMatchingReply6 cap m n pid = Some b \<and> isMatchingReply6 cap m' n pid = Some b"
    by (auto simp: isMatchingReply6_value)
next
  fix h data :: bytes and cap ck ident sq :: nat and ty code m pid
  assume h: "h = []" and fit: "length h + 8 + length data \<le> cap"
  from icmp_reads [OF fit refl] h
  show "isMatchingReply6 cap (store (h @ [ty, code] @ le16 ck @ le16 ident @ le16 sq @ data) m)
      (length h + 8 + length data) pid = Some (ty = 129 \<and> ident mod 65536 = unat pid)"
    by (auto simp: isMatchingReply6_def word_unat_eq_iff)
qed

subsection \<open>Waiting for a reply\<close>

text \<open>
  What the socket delivers until the wait ends: nothing more, or a datagram that is accepted;
  any number of others may come before.
\<close>

inductive hears :: "(bytes \<Rightarrow> bool) \<Rightarrow> 'w os \<Rightarrow> int \<Rightarrow> 'w \<Rightarrow> bool \<Rightarrow> 'w \<Rightarrow> bool" for acc os fd where
  silent: "sys_recv os fd False w = (x, w') \<Longrightarrow> x = None \<or> x = Some [] \<Longrightarrow> hears acc os fd w False w'"
| reply: "sys_recv os fd False w = (Some bs, w') \<Longrightarrow> bs \<noteq> [] \<Longrightarrow> acc bs \<Longrightarrow> hears acc os fd w True w'"
| other: "sys_recv os fd False w = (Some bs, w1) \<Longrightarrow> bs \<noteq> [] \<Longrightarrow> \<not> acc bs \<Longrightarrow> hears acc os fd w1 r w' \<Longrightarrow>
    hears acc os fd w r w'"

context echo_family begin

lemma recv_loop_step:
  "recv_loop matching os fd pid m w =
     (case sys_recv os fd False w of
        (None, w) \<Rightarrow> Some (False, w)
      | (Some bs, w) \<Rightarrow>
          if bs = [] then Some (False, w)
          else if accepts pid bs then Some (True, w)
          else recv_loop matching os fd pid (store (take 512 bs) m) w)"
  by (subst recv_loop.simps)
    (simp add: received_def match_received_min del: bind_Some_iff split: prod.split option.split)

lemma recv_loop_hears:
  "hears (accepts pid) os fd w r w' \<Longrightarrow> recv_loop matching os fd pid m w = Some (r, w')"
  by (induction arbitrary: m rule: hears.induct) (subst recv_loop_step, auto)+

lemma hears_recv_loop:
  assumes "recv_loop matching os fd pid m w = Some rw"
  shows "hears (accepts pid) os fd w (fst rw) (snd rw)"
proof -
  have "matching = matching \<longrightarrow> os = os \<longrightarrow> fd = fd \<longrightarrow> pid = pid \<longrightarrow> hears (accepts pid) os fd w (fst rw) (snd rw)"
  proof (rule recv_loop.raw_induct [where P = "\<lambda>ma o' f p m w rw.
        ma = matching \<longrightarrow> o' = os \<longrightarrow> f = fd \<longrightarrow> p = pid \<longrightarrow> hears (accepts pid) os fd w (fst rw) (snd rw)",
        OF _ assms], goal_cases)
    case (1 rec ma o' f p m w rw)
    show ?case
    proof (intro impI)
      assume eq: "ma = matching" "o' = os" "f = fd" "p = pid"
      obtain x w1 where x: "sys_recv os fd False w = (x, w1)" by fastforce
      show "hears (accepts pid) os fd w (fst rw) (snd rw)"
      proof (cases "x = None \<or> x = Some []")
        case True
        with "1"(2) x eq have "rw = (False, w1)" by auto
        with hears.silent [OF x True] show ?thesis by simp
      next
        case False
        then obtain bs where bs: "x = Some bs" "bs \<noteq> []" by auto
        from "1"(2) [unfolded eq] x bs have run: "(if accepts pid bs then Some (True, w1)
            else rec matching os fd pid (store (take 512 bs) m) w1) = Some rw"
          by (simp add: received_def match_received_min del: bind_Some_iff)
        show ?thesis
        proof (cases "accepts pid bs")
          case True
          with run have "rw = (True, w1)" by simp
          with hears.reply [of os fd w bs w1 "accepts pid"] True x bs show ?thesis by auto
        next
          case no: False
          with run "1"(1) have "hears (accepts pid) os fd w1 (fst rw) (snd rw)" by auto
          with hears.other [of os fd w bs w1 "accepts pid"] no x bs show ?thesis by auto
        qed
      qed
    qed
  qed
  then show ?thesis by simp
qed

lemma recv_loop_iff:
  "recv_loop matching os fd pid m w = Some (r, w') \<longleftrightarrow> hears (accepts pid) os fd w r w'"
  using recv_loop_hears hears_recv_loop by fastforce

end

text \<open>The datagrams the two protocols accept, on their bytes.\<close>

definition reply_at :: "nat \<Rightarrow> u8 \<Rightarrow> u16 \<Rightarrow> bytes \<Rightarrow> bool" where
  "reply_at l ty pid bs \<longleftrightarrow>
     l + 8 \<le> length bs \<and> bs ! l = ty \<and> unat (bs ! (l + 4)) + 256 * unat (bs ! (l + 5)) = unat pid"

definition is_reply4 :: "u16 \<Rightarrow> bytes \<Rightarrow> bool" where
  "is_reply4 pid bs \<longleftrightarrow> bs \<noteq> [] \<and> reply_at ((unat (hd bs) mod 16) * 4) 0 pid (take 512 bs)"

definition is_reply6 :: "u16 \<Rightarrow> bytes \<Rightarrow> bool" where
  "is_reply6 pid bs \<longleftrightarrow> reply_at 0 129 pid (take 512 bs)"

lemma accepts4: "bs \<noteq> [] \<Longrightarrow> echo4.accepts pid bs \<longleftrightarrow> is_reply4 pid bs"
  by (cases bs)
    (auto simp: echo4.accepts_def is_reply4_def reply_at_def isMatchingReply4_value store_def Let_def)

lemma accepts6: "bs \<noteq> [] \<Longrightarrow> echo6.accepts pid bs \<longleftrightarrow> is_reply6 pid bs"
  by (auto simp: echo6.accepts_def is_reply6_def reply_at_def isMatchingReply6_value store_def)

lemma hears_cong:
  assumes "\<And>bs. bs \<noteq> [] \<Longrightarrow> acc bs = acc' bs" and "hears acc os fd w r w'"
  shows "hears acc' os fd w r w'"
  using assms(2,1) by (induction rule: hears.induct) (auto intro: hears.intros)

lemma recv_loop4_iff:
  "recv_loop isMatchingReply4 os fd pid m w = Some (r, w') \<longleftrightarrow> hears (is_reply4 pid) os fd w r w'"
  unfolding echo4.recv_loop_iff by (rule iffI; erule hears_cong [rotated]; simp add: accepts4)

lemma recv_loop6_iff:
  "recv_loop isMatchingReply6 os fd pid m w = Some (r, w') \<longleftrightarrow> hears (is_reply6 pid) os fd w r w'"
  unfolding echo6.recv_loop_iff by (rule iffI; erule hears_cong [rotated]; simp add: accepts6)

subsection \<open>Properties\<close>

text \<open>C25: The wait for a reply returns exactly when the socket, after any number of datagrams that
  are no echo reply with the monitor's identifier, delivers one that is (then the answer is yes)
  or delivers nothing (then it is no); it looks at no byte outside the received datagram,
  whatever the array held before.\<close>

theorem recv_loop_returns_iff_hears:
  "(recv_loop isMatchingReply4 os fd pid m w = Some (r, w') \<longleftrightarrow> hears (is_reply4 pid) os fd w r w') \<and>
   (recv_loop isMatchingReply6 os fd pid m w = Some (r, w') \<longleftrightarrow> hears (is_reply6 pid) os fd w r w')"
  by (simp add: recv_loop4_iff recv_loop6_iff)

lemma hears_endless:
  "hears acc os fd w r w' \<Longrightarrow>
   (\<And>w. \<exists>bs w'. sys_recv os fd False w = (Some bs, w') \<and> bs \<noteq> [] \<and> \<not> acc bs) \<Longrightarrow> False"
proof (induction rule: hears.induct)
  case (silent w x w')
  from silent.prems [of w] silent.hyps show ?case by auto
next
  case (reply w bs w')
  from reply.prems [of w] reply.hyps show ?case by auto
qed blast

text \<open>Nothing bounds the wait as a whole: the socket's timeout is started anew for each
  datagram, so on an interface where other ICMP messages keep arriving in time the wait, and
  with it the monitor's tick, never comes back.\<close>

lemma recv_loop_endless:
  assumes "\<forall>w. \<exists>bs w'. sys_recv os fd False w = (Some bs, w') \<and> bs \<noteq> [] \<and> \<not> is_reply4 pid bs"
  shows "recv_loop isMatchingReply4 os fd pid m w = None"
proof (cases "recv_loop isMatchingReply4 os fd pid m w")
  case (Some rw)
  then have "hears (is_reply4 pid) os fd w (fst rw) (snd rw)" using recv_loop4_iff by (metis prod.collapse)
  from hears_endless [OF this] assms show ?thesis by blast
qed simp

definition noisy_os :: "unit os" where
  "noisy_os = idle_os\<lparr>sys_recv := (\<lambda>fd dw w. (Some [0x45], w))\<rparr>"

lemma recv_loop_endless_witness:
  "recv_loop isMatchingReply4 noisy_os 3 7 (\<lambda>_. 0) () = None"
  by (rule recv_loop_endless) (auto simp: noisy_os_def is_reply4_def reply_at_def)

text \<open>Of the ICMP messages that a socket delivers (behind an IPv4 header with any options, or
  bare for ICMPv6) the monitor takes exactly the echo replies that carry its identifier; the
  sequence number, the code, the checksum and the payload make no difference, so a late
  reply to an earlier ping, from the target or from the gateway, counts for the present one.\<close>

lemma matching_looks_at_type_and_identifier:
  assumes "ip_header h" and "length h + 8 + length data \<le> 512"
  shows "isMatchingReply4 512 (store (h @ [ty, code] @ le16 ck @ le16 (unat ident) @ le16 sq @ data) m)
      (length h + 8 + length data) pid = Some (ty = 0 \<and> ident = pid) \<and>
    isMatchingReply6 512 (store ([ty, code] @ le16 ck @ le16 (unat ident) @ le16 sq @ data) m)
      (8 + length data) pid = Some (ty = 129 \<and> ident = pid)"
proof -
  have i: "unat ident mod 65536 = unat pid \<longleftrightarrow> ident = pid"
    using unsigned_less [of ident, where 'a = nat] by (simp add: word_unat_eq_iff)
  show ?thesis
    using echo4.match_icmp [OF assms, of ty code ck "unat ident" sq m pid]
      echo6.match_icmp [of "[]" data 512 ty code ck "unat ident" sq m pid] assms(2) unfolding i by simp
qed

lemma matching_looks_at_type_and_identifier_witness:
  "isMatchingReply4 512 (store ((0x46 # replicate 23 0) @ [0, 0] @ le16 1 @ le16 (unat (9 :: u16)) @ le16 5 @ [])
     (\<lambda>_. 7)) 32 9 = Some True"
  using matching_looks_at_type_and_identifier [of "0x46 # replicate 23 0" "[]" 0 0 1 9 5 "\<lambda>_. 7" 9]
  by (simp add: ip_header_def)

text \<open>C35: The IPv4 echo request carries a valid checksum for every identifier and sequence number:
  a receiver that sums the whole message finds zero.\<close>

theorem request4_checksum_valid: "checksum (request4 ident seq) = 0"
proof -
  have "checksum ([8, 0] @ le16 (unat (checksum ([8, 0] @ [0, 0] @ le16 (unat ident) @ le16 (unat seq) @
      replicate 16 0x42))) @ le16 (unat ident) @ le16 (unat seq) @ replicate 16 0x42) = 0"
    by (rule checksum_field) simp_all
  moreover have "le16 0 = [0, 0]" by (simp add: le16_def)
  ultimately show ?thesis by (simp only: request4_def echo_packet_def unsigned_0 append_assoc)
qed

text \<open>C36: An interface counts as addressed in a family exactly when the address list can be read and
  has an entry with that name and family which, for IPv6, does not begin with sixteen bits
  between \<open>fe80\<close> and \<open>febf\<close>.\<close>

theorem ifaceHasAddress_iff:
  "fst (ifaceHasAddress os iface family w) \<longleftrightarrow>
     (\<exists>addrs a bs. fst (sys_getifaddrs os w) = Some addrs \<and> a \<in> set addrs \<and> ifa_name a = iface \<and>
        ifa_addr a = Some (family, bs) \<and>
        \<not> (family = AF_INET6 \<and> (\<exists>b c rest. bs = b # c # rest \<and>
            0xfe80 \<le> 256 * unat b + unat c \<and> 256 * unat b + unat c \<le> 0xfebf)))"
proof -
  have "is_link_local bs \<longleftrightarrow> (\<exists>b c rest. bs = b # c # rest \<and>
      0xfe80 \<le> 256 * unat b + unat c \<and> 256 * unat b + unat c \<le> 0xfebf)" for bs
  proof -
    have lt: "unat b < 256" for b :: u8 using unsigned_less [of b, where 'a = nat] by simp
    have fe: "b = 0xfe \<longleftrightarrow> unat b = 254" for b :: u8 by (simp add: word_unat_eq_iff)
    have "b = 0xfe \<and> c AND 0xc0 = 0x80 \<longleftrightarrow> 0xfe80 \<le> 256 * unat b + unat c \<and> 256 * unat b + unat c \<le> 0xfebf"
      for b c :: u8
    proof (cases "unat b = 254")
      case False
      then have "unat b \<le> 253 \<or> 255 \<le> unat b" by linarith
      with lt [of c] show ?thesis unfolding fe by auto
    qed (auto simp: fe top_two_bits)
    then show ?thesis by (cases bs rule: is_link_local.cases) auto
  qed
  then have ll: "is_link_local bs \<longleftrightarrow> (\<exists>b c rest. bs = b # c # rest \<and>
      0xfe80 \<le> 256 * unat b + unat c \<and> 256 * unat b + unat c \<le> 0xfebf)" for bs .
  have "matchesIfaceAddress a iface family \<longleftrightarrow> (\<exists>bs. ifa_name a = iface \<and> ifa_addr a = Some (family, bs) \<and>
      \<not> (family = AF_INET6 \<and> is_link_local bs))" for a
    by (auto simp: matchesIfaceAddress_def split: option.split)
  then show ?thesis
    unfolding ll [symmetric] by (cases "sys_getifaddrs os w") (auto simp: ifaceHasAddress_def list_ex_iff split: option.split)
qed

end
