(* ===== verification/Target_Resolve.thy ===== *)
theory Target_Resolve
  imports Platform
begin

section \<open>Ping targets (target_resolve.cpp)\<close>

text \<open>
  \<open>resolveTargets\<close> turns one target string, an address or a host name, into at most one IPv4
  and one IPv6 address. \<open>inet_pton\<close>, \<open>inet_ntop\<close> and \<open>getaddrinfo\<close> are the platform's.
\<close>

record resolved_targets =
  rt_v4 :: "string option"
  rt_v6 :: "string option"

definition no_targets :: resolved_targets where
  "no_targets = \<lparr>rt_v4 = None, rt_v6 = None\<rparr>"

text \<open>\<open>tryLiteral\<close>: the result when it returns true, \<open>None\<close> when it returns false.\<close>

definition tryLiteral :: "'w os \<Rightarrow> string \<Rightarrow> resolved_targets option" where
  "tryLiteral os target =
     (if sys_inet_pton os AF_INET target \<noteq> None then Some (no_targets\<lparr>rt_v4 := Some target\<rparr>)
      else if sys_inet_pton os AF_INET6 target \<noteq> None then Some (no_targets\<lparr>rt_v6 := Some target\<rparr>)
      else None)"

definition collect_one :: "'w os \<Rightarrow> addrinfo \<Rightarrow> resolved_targets \<Rightarrow> resolved_targets" where
  "collect_one os ai r =
     (if ai_family ai = AF_INET \<and> rt_v4 r = None then
        (case sys_inet_ntop os AF_INET (ai_addr ai) of Some s \<Rightarrow> r\<lparr>rt_v4 := Some s\<rparr> | None \<Rightarrow> r)
      else if ai_family ai = AF_INET6 \<and> rt_v6 r = None then
        (case sys_inet_ntop os AF_INET6 (ai_addr ai) of Some s \<Rightarrow> r\<lparr>rt_v6 := Some s\<rparr> | None \<Rightarrow> r)
      else r)"

fun collectAddresses :: "'w os \<Rightarrow> addrinfo list \<Rightarrow> resolved_targets \<Rightarrow> resolved_targets" where
  "collectAddresses os [] r = r"
| "collectAddresses os (ai # ais) r =
     (let r = collect_one os ai r
      in if rt_v4 r \<noteq> None \<and> rt_v6 r \<noteq> None then r else collectAddresses os ais r)"

definition resolveViaDns :: "'w os \<Rightarrow> string \<Rightarrow> 'w \<Rightarrow> resolved_targets \<times> 'w" where
  "resolveViaDns os target w =
     (case sys_getaddrinfo os target w of
        (None, w) \<Rightarrow> (no_targets, w)
      | (Some ais, w) \<Rightarrow> (collectAddresses os ais no_targets, w))"

definition resolveTargets :: "'w os \<Rightarrow> string \<Rightarrow> 'w \<Rightarrow> resolved_targets \<times> 'w" where
  "resolveTargets os target w =
     (case tryLiteral os target of
        Some r \<Rightarrow> (r, w)
      | None \<Rightarrow> resolveViaDns os target w)"

subsection \<open>The specification: the first printable address of each family\<close>

definition printable :: "'w os \<Rightarrow> nat \<Rightarrow> addrinfo list \<Rightarrow> string list" where
  "printable os af ais =
     List.map_filter (\<lambda>ai. if ai_family ai = af then sys_inet_ntop os af (ai_addr ai) else None) ais"

definition first_of :: "'a list \<Rightarrow> 'a option" where
  "first_of xs = (case xs of [] \<Rightarrow> None | x # _ \<Rightarrow> Some x)"

lemma printable_Cons [simp]:
  "printable os af (ai # ais) =
     (if ai_family ai = af
      then case sys_inet_ntop os af (ai_addr ai) of Some s \<Rightarrow> s # printable os af ais | None \<Rightarrow> printable os af ais
      else printable os af ais)"
  by (simp add: printable_def List.map_filter_simps split: option.split)

lemma printable_Nil [simp]: "printable os af [] = []"
  by (simp add: printable_def List.map_filter_simps)

lemma first_of_simps [simp]: "first_of [] = None" "first_of (x # xs) = Some x"
  by (simp_all add: first_of_def)

definition or_else :: "'a option \<Rightarrow> 'a option \<Rightarrow> 'a option" where
  "or_else x y = (case x of None \<Rightarrow> y | Some _ \<Rightarrow> x)"

lemma or_else_simps [simp]: "or_else None y = y" "or_else (Some a) y = Some a" "or_else x None = x"
  by (auto simp: or_else_def split: option.split)

lemma collectAddresses_first:
  "collectAddresses os ais r =
     \<lparr>rt_v4 = or_else (rt_v4 r) (first_of (printable os AF_INET ais)),
      rt_v6 = or_else (rt_v6 r) (first_of (printable os AF_INET6 ais))\<rparr>"
proof (induction ais arbitrary: r)
  case (Cons ai ais)
  show ?case
  proof (cases "rt_v4 (collect_one os ai r) \<noteq> None \<and> rt_v6 (collect_one os ai r) \<noteq> None")
    case True
    then show ?thesis
      by (cases r) (auto simp: collect_one_def Let_def split: if_splits option.splits)
  next
    case False
    then show ?thesis
      by (cases r) (auto simp: collect_one_def Let_def Cons.IH split: if_splits option.splits)
  qed
qed (cases r, simp)

text \<open>inet_ntop(3) and inet_pton(3): what is printed for a family is read back in that family.\<close>

definition inet_laws :: "'w os \<Rightarrow> bool" where
  "inet_laws os \<longleftrightarrow>
     (\<forall>af bs s. af \<in> {AF_INET, AF_INET6} \<longrightarrow> sys_inet_ntop os af bs = Some s \<longrightarrow> sys_inet_pton os af s = Some bs)"

lemma first_printable_pton:
  "inet_laws os \<Longrightarrow> af \<in> {AF_INET, AF_INET6} \<Longrightarrow> first_of (printable os af ais) = Some s \<Longrightarrow>
   sys_inet_pton os af s \<noteq> None"
  by (induction ais) (auto simp: inet_laws_def split: if_splits option.splits)

subsection \<open>Properties\<close>

text \<open>C31: A target that is an address in either family is used as it stands, without asking the
  name service; for any other target one lookup is made, and the result is the first printable
  address of each family in the order the name service gives, or nothing when the lookup
  fails.\<close>

theorem resolveTargets_spec:
  "resolveTargets os target w =
     (if sys_inet_pton os AF_INET target \<noteq> None then (\<lparr>rt_v4 = Some target, rt_v6 = None\<rparr>, w)
      else if sys_inet_pton os AF_INET6 target \<noteq> None then (\<lparr>rt_v4 = None, rt_v6 = Some target\<rparr>, w)
      else let (reply, w') = sys_getaddrinfo os target w; ais = (case reply of None \<Rightarrow> [] | Some ais \<Rightarrow> ais)
        in (\<lparr>rt_v4 = first_of (printable os AF_INET ais), rt_v6 = first_of (printable os AF_INET6 ais)\<rparr>, w'))"
  by (auto simp: resolveTargets_def tryLiteral_def resolveViaDns_def no_targets_def
      collectAddresses_first split: prod.split option.split)

text \<open>Whatever the name service answers, an address that \<open>resolveTargets\<close> gives for a family
  is one that \<open>inet_pton\<close> accepts for that family, so that the pings sent to it never fail for
  want of a parsable address.\<close>

lemma resolveTargets_parsable:
  assumes "inet_laws os" and "resolveTargets os target w = (r, w')"
  shows "(\<forall>s. rt_v4 r = Some s \<longrightarrow> sys_inet_pton os AF_INET s \<noteq> None) \<and>
    (\<forall>s. rt_v6 r = Some s \<longrightarrow> sys_inet_pton os AF_INET6 s \<noteq> None)"
  using assms(2) first_printable_pton [OF assms(1)]
  by (auto simp: resolveTargets_def tryLiteral_def resolveViaDns_def no_targets_def
      collectAddresses_first split: if_splits prod.splits option.splits)

text \<open>
  A platform with a toy notation for addresses (the bytes themselves behind a letter for the
  family) and one host with two IPv4 addresses and an IPv6 address.
\<close>

definition dns_os :: "'w os" where
  "dns_os = idle_os\<lparr>
     sys_inet_pton := (\<lambda>af s. case s of
        c # t \<Rightarrow> if af = AF_INET \<and> c = CHR ''4'' \<or> af = AF_INET6 \<and> c = CHR ''6'' then Some (bytes_of t) else None
      | [] \<Rightarrow> None),
     sys_inet_ntop := (\<lambda>af bs. Some ((if af = AF_INET then CHR ''4'' else CHR ''6'') # string_of bs)),
     sys_getaddrinfo := (\<lambda>h w. if h = ''host''
        then (Some [\<lparr>ai_family = AF_INET, ai_addr = bytes_of ''aaaa''\<rparr>,
                    \<lparr>ai_family = AF_INET, ai_addr = bytes_of ''bbbb''\<rparr>,
                    \<lparr>ai_family = AF_INET6, ai_addr = bytes_of ''cccc''\<rparr>], w)
        else (None, w))\<rparr>"

lemma bytes_of_string_of [simp]: "bytes_of (string_of bs) = bs"
proof -
  have "of_nat (of_char (char_of (unat b) :: char)) = b" for b :: u8
    using unsigned_less [of b, where 'a = nat] by simp
  then show ?thesis by (simp add: bytes_of_def string_of_def comp_def)
qed

lemma dns_os_laws: "inet_laws dns_os"
  by (auto simp: inet_laws_def dns_os_def split: if_splits)

lemma resolveTargets_parsable_witness:
  "sys_inet_pton (dns_os :: unit os) AF_INET ''4aaaa'' \<noteq> None \<and>
   sys_inet_pton (dns_os :: unit os) AF_INET6 ''6cccc'' \<noteq> None"
proof -
  have "resolveTargets dns_os ''host'' () = (\<lparr>rt_v4 = Some ''4aaaa'', rt_v6 = Some ''6cccc''\<rparr>, ())"
    by (simp add: resolveTargets_def tryLiteral_def resolveViaDns_def dns_os_def collectAddresses_first
        no_targets_def)
  from resolveTargets_parsable [OF dns_os_laws this] show ?thesis by simp
qed

end
