(* ===== verification/Gateway_Resolver.thy ===== *)
theory Gateway_Resolver
  imports Target_Resolve
begin

section \<open>The default gateway (gateway_resolver.cpp, gateway_resolve.hpp)\<close>

text \<open>
  \<open>GatewayResolver\<close> asks the kernel for its routes of one address family and takes from the
  answer the gateway of the default route of one interface.
\<close>

subsection \<open>State and request\<close>

record gateway_resolver =
  gr_family :: nat
  gr_ifindex :: int

definition new_gateway_resolver :: "'w os \<Rightarrow> string \<Rightarrow> nat \<Rightarrow> 'w \<Rightarrow> gateway_resolver \<times> 'w" where
  "new_gateway_resolver os iface family w =
     (let (i, w) = sys_if_nametoindex os iface w in (\<lparr>gr_family = family, gr_ifindex = to_i32 i\<rparr>, w))"

text \<open>\<open>RouteRequest\<close>: a message header and a \<open>struct rtmsg\<close>, 28 bytes.\<close>

definition buildRequest :: "gateway_resolver \<Rightarrow> bytes" where
  "buildRequest gr =
     le32 28 @ le16 RTM_GETROUTE @ le16 (NLM_F_REQUEST OR NLM_F_DUMP) @ le32 1 @ le32 0
     @ [of_nat (gr_family gr)] @ replicate 11 0"

subsection \<open>One route\<close>

text \<open>The gateway is a position in the array and a length, as the code's pointer and length are.\<close>

definition formatGateway ::
  "'w os \<Rightarrow> nat \<Rightarrow> buf \<Rightarrow> gateway_resolver \<Rightarrow> nat \<Rightarrow> nat \<Rightarrow> string option option" where
  "formatGateway os cap m gr gateway gatewayLen =
     (if gr_family gr = AF_INET \<and> gatewayLen = 4 then
        do { bs \<leftarrow> rd_bytes cap m gateway 4; Some (sys_inet_ntop os AF_INET bs) }
      else if gr_family gr = AF_INET6 \<and> gatewayLen = 16 then
        do { bs \<leftarrow> rd_bytes cap m gateway 16; Some (sys_inet_ntop os AF_INET6 bs) }
      else Some None)"

function route_loop ::
  "nat \<Rightarrow> buf \<Rightarrow> nat \<Rightarrow> int \<Rightarrow> int \<times> (nat \<times> nat) option \<Rightarrow> (int \<times> (nat \<times> nat) option) option" where
  "route_loop cap m rta attrLen s =
     (if attrLen < 4 then Some s
      else do {
        rlen \<leftarrow> rd16 cap m rta;
        if rlen < 4 \<or> attrLen < int rlen then Some s
        else do {
          ty \<leftarrow> rd16 cap m (rta + 2);
          s \<leftarrow> (if ty = RTA_OIF then do { v \<leftarrow> rd32 cap m (rta + 4); Some (to_i32 v, snd s) }
               else if ty = RTA_GATEWAY then Some (fst s, Some (rta + 4, rlen - 4))
               else Some s);
          route_loop cap m (rta + RTA_ALIGN rlen) (attrLen - int (RTA_ALIGN rlen)) s
        }
      })"
  by pat_completeness auto
termination
  by (relation "measure (\<lambda>(cap, m, rta, attrLen, s). nat attrLen)")
    (auto simp: RTA_ALIGN_def)

declare route_loop.simps [simp del]

text \<open>\<open>NLMSG_PAYLOAD\<close> behind the header and \<open>struct rtmsg\<close>, converted to \<open>int\<close>.\<close>

definition route_payload :: "nat \<Rightarrow> int" where
  "route_payload nlmsg_len = to_i32 (of_i32 (int nlmsg_len - 28))"

definition parseDefaultRouteGateway ::
  "'w os \<Rightarrow> nat \<Rightarrow> buf \<Rightarrow> gateway_resolver \<Rightarrow> nat \<Rightarrow> nat \<Rightarrow> string option option" where
  "parseDefaultRouteGateway os cap m gr nlh nlmsg_len =
     do {
       family \<leftarrow> rd8 cap m (nlh + 16);
       if family \<noteq> gr_family gr then Some None
       else do {
         dst_len \<leftarrow> rd8 cap m (nlh + 17);
         if dst_len \<noteq> 0 then Some None
         else do {
           s \<leftarrow> route_loop cap m (nlh + 28) (route_payload nlmsg_len) (-1, None);
           if fst s \<noteq> gr_ifindex gr then Some None
           else case snd s of
             None \<Rightarrow> Some None
           | Some (gateway, gatewayLen) \<Rightarrow> formatGateway os cap m gr gateway gatewayLen
         }
       }
     }"

subsection \<open>The dump\<close>

text \<open>
  \<open>n\<close> is signed here, so the loop ends also when the last length is not a multiple of four. The
  result is the gateway found and \<open>done\<close>.
\<close>

partial_function (option) scanBatch ::
  "'w os \<Rightarrow> nat \<Rightarrow> buf \<Rightarrow> gateway_resolver \<Rightarrow> nat \<Rightarrow> int \<Rightarrow> string option \<Rightarrow> (string option \<times> bool) option" where
  "scanBatch os cap m gr nlh n result =
     (if n < 16 then Some (result, False)
      else do {
        nlmsg_len \<leftarrow> rd32 cap m nlh;
        if nlmsg_len < 16 \<or> n < int nlmsg_len then Some (result, False)
        else do {
          ty \<leftarrow> rd16 cap m (nlh + 4);
          if ty = NLMSG_DONE \<or> ty = NLMSG_ERROR then Some (result, True)
          else if ty \<noteq> RTM_NEWROUTE then
            scanBatch os cap m gr (nlh + NLMSG_ALIGN nlmsg_len) (n - int (NLMSG_ALIGN nlmsg_len)) result
          else do {
            gw \<leftarrow> parseDefaultRouteGateway os cap m gr nlh nlmsg_len;
            scanBatch os cap m gr (nlh + NLMSG_ALIGN nlmsg_len) (n - int (NLMSG_ALIGN nlmsg_len))
              (if gw \<noteq> None then gw else result)
          }
        }
      })"

partial_function (option) drain ::
  "'w os \<Rightarrow> gateway_resolver \<Rightarrow> int \<Rightarrow> buf \<Rightarrow> string option \<Rightarrow> 'w \<Rightarrow> (string option \<times> 'w) option" where
  "drain os gr fd m result w =
     (case sys_recv os fd False w of
        (None, w) \<Rightarrow> Some (result, w)
      | (Some bs, w) \<Rightarrow>
          if bs = [] then Some (result, w)
          else do {
            let (n, m) = received 8192 bs m;
            r \<leftarrow> scanBatch os 8192 m gr 0 (int n) None;
            let result = (if fst r \<noteq> None then fst r else result);
            if snd r then Some (result, w) else drain os gr fd m result w
          })"

definition sendRequestAndDrain ::
  "'w os \<Rightarrow> gateway_resolver \<Rightarrow> int \<Rightarrow> buf \<Rightarrow> 'w \<Rightarrow> (string option \<times> 'w) option" where
  "sendRequestAndDrain os gr fd m w =
     (let (n, w) = sys_send os fd (buildRequest gr) w
      in if n \<noteq> 28 then Some (None, w) else drain os gr fd m None w)"

definition gr_resolve :: "'w os \<Rightarrow> gateway_resolver \<Rightarrow> buf \<Rightarrow> 'w \<Rightarrow> (string option \<times> 'w) option" where
  "gr_resolve os gr m w =
     (if gr_ifindex gr = 0 then Some (None, w)
      else let (fd, w) = sys_socket os AF_NETLINK SOCK_RAW NETLINK_ROUTE w
           in if fd < 0 then Some (None, w)
              else do {
                r \<leftarrow> sendRequestAndDrain os gr fd m w;
                Some (fst r, sys_close os fd (snd r))
              })"

text \<open>\<open>m\<close> is what the receive array holds at first.\<close>

definition resolveGateway :: "'w os \<Rightarrow> buf \<Rightarrow> string \<Rightarrow> nat \<Rightarrow> 'w \<Rightarrow> (string option \<times> 'w) option" where
  "resolveGateway os m iface family w =
     (let (gr, w) = new_gateway_resolver os iface family w in gr_resolve os gr m w)"

subsection \<open>Dumps as the kernel sends them\<close>

text \<open>
  A route message carries its family, the length of its destination prefix, ten more bytes that
  the program does not look at, and attributes; \<open>Dump_end\<close> is \<open>NLMSG_DONE\<close> or \<open>NLMSG_ERROR\<close>.
\<close>

datatype route_frame =
    Route_frame (route_family: nat) (dst_prefix: nat) (route_rest: bytes) (route_attrs: "rtattr list")
  | Dump_end (is_error: bool) bytes
  | Other_route_frame nat bytes

definition route_body :: "nat \<Rightarrow> nat \<Rightarrow> bytes \<Rightarrow> rtattr list \<Rightarrow> bytes" where
  "route_body fam dst rest as = [of_nat fam, of_nat dst] @ rest @ concat (map enc_attr as)"

fun route_msg :: "route_frame \<Rightarrow> nlmsg" where
  "route_msg (Route_frame fam dst rest as) = (RTM_NEWROUTE, route_body fam dst rest as)"
| "route_msg (Dump_end err body) = (if err then NLMSG_ERROR else NLMSG_DONE, body)"
| "route_msg (Other_route_frame ty body) = (ty, body)"

definition enc_route :: "route_frame \<Rightarrow> bytes" where
  "enc_route f = enc_msg (route_msg f)"

text \<open>rtnetlink(7): \<open>RTA_OIF\<close> carries an \<open>int\<close>.\<close>

definition wf_route_attr :: "rtattr \<Rightarrow> bool" where
  "wf_route_attr a \<longleftrightarrow> wf_attr a \<and> (fst a = RTA_OIF \<longrightarrow> length (snd a) = 4)"

fun wf_route :: "route_frame \<Rightarrow> bool" where
  "wf_route (Route_frame fam dst rest as) \<longleftrightarrow>
     fam < 256 \<and> dst < 256 \<and> length rest = 10 \<and> list_all wf_route_attr as \<and>
     length (route_body fam dst rest as) \<le> 8176"
| "wf_route (Dump_end err body) \<longleftrightarrow> 4 dvd length body \<and> length body \<le> 8176"
| "wf_route (Other_route_frame ty body) \<longleftrightarrow>
     ty \<noteq> RTM_NEWROUTE \<and> ty \<noteq> NLMSG_DONE \<and> ty \<noteq> NLMSG_ERROR \<and> wf_msg (ty, body)"

text \<open>The last attribute of a type; an \<open>int\<close> out of four bytes.\<close>

fun last_attr :: "nat \<Rightarrow> rtattr list \<Rightarrow> bytes option" where
  "last_attr t [] = None"
| "last_attr t (a # as) =
     (case last_attr t as of Some bs \<Rightarrow> Some bs | None \<Rightarrow> if fst a = t then Some (snd a) else None)"

definition i32_of :: "bytes \<Rightarrow> int" where
  "i32_of bs = to_i32 (unat (bs ! 0) + 256 * unat (bs ! 1) + 65536 * unat (bs ! 2) + 16777216 * unat (bs ! 3))"

lemma rd32_i32_of:
  assumes "holds m i bs" and "length bs = 4" and "i + 3 < cap"
  shows "map_option to_i32 (rd32 cap m i) = Some (i32_of bs)"
proof -
  have "m (i + k) = bs ! k" if "k < 4" for k using assms(1,2) that by (simp add: holds_def)
  from this [of 0] this [of 1] this [of 2] this [of 3] assms(3) show ?thesis
    by (simp add: rd32_def i32_of_def)
qed

text \<open>The gateway pointer \<open>p\<close> stands for the bytes \<open>g\<close>.\<close>

definition points_to :: "nat \<Rightarrow> buf \<Rightarrow> (nat \<times> nat) option \<Rightarrow> bytes option \<Rightarrow> bool" where
  "points_to cap m p g \<longleftrightarrow>
     (case p of
        None \<Rightarrow> g = None
      | Some (at, n) \<Rightarrow> \<exists>bs. g = Some bs \<and> n = length bs \<and> holds m at bs \<and> at + n \<le> cap)"

definition or_last :: "'a option \<Rightarrow> 'a option \<Rightarrow> 'a option" where
  "or_last new old = (case new of Some x \<Rightarrow> Some x | None \<Rightarrow> old)"

lemma or_last_simps [simp]: "or_last None old = old" "or_last (Some x) old = Some x" "or_last new None = new"
  by (auto simp: or_last_def split: option.split)

lemma or_last_assoc: "or_last a (or_last b c) = or_last (or_last a b) c"
  by (cases a) auto

lemma route_loop_attrs:
  assumes "list_all wf_route_attr as" and "holds m off (concat (map enc_attr as))"
    and "off + length (concat (map enc_attr as)) \<le> cap" and "points_to cap m (snd s) g"
  shows "\<exists>p. route_loop cap m off (int (length (concat (map enc_attr as)))) s =
      Some (case last_attr RTA_OIF as of Some bs \<Rightarrow> i32_of bs | None \<Rightarrow> fst s, p) \<and>
    points_to cap m p (or_last (last_attr RTA_GATEWAY as) g)"
  using assms
proof (induction as arbitrary: off s g)
  case Nil
  then show ?case by (cases s) (simp add: route_loop.simps)
next
  case (Cons a as)
  let ?rest = "concat (map enc_attr as)"
  have wf: "wf_attr a" and h: "holds m off (enc_attr a)" and fit: "off + length (enc_attr a) \<le> cap"
    and oif4: "fst a = RTA_OIF \<Longrightarrow> length (snd a) = 4"
    using Cons.prems(1-3) by (simp_all add: wf_route_attr_def)
  note hd = enc_attr_header [OF wf h fit]
  have len: "RTA_ALIGN (4 + length (snd a)) = length (enc_attr a)" by (simp add: layout_simps)
  define s' where "s' = (if fst a = RTA_OIF then (i32_of (snd a), snd s)
    else if fst a = RTA_GATEWAY then (fst s, Some (off + 4, length (snd a))) else s)"
  define g' where "g' = (if fst a = RTA_GATEWAY then Some (snd a) else g)"
  have rd: "\<exists>v. rd32 cap m (off + 4) = Some v \<and> to_i32 v = i32_of (snd a)" if "fst a = RTA_OIF"
    using rd32_i32_of [OF hd(4) oif4, of cap] that hd(3) fit oif4 by auto
  have "route_loop cap m off (int (length (concat (map enc_attr (a # as))))) s =
      route_loop cap m (off + length (enc_attr a)) (int (length ?rest)) s'"
    using hd(1,2,3) rd by (subst route_loop.simps) (auto simp: len s'_def)
  moreover have "points_to cap m (snd s') g'"
    using Cons.prems(4) hd(3,4) fit by (auto simp: s'_def g'_def points_to_def)
  ultimately show ?case
    using Cons.IH [of "off + length (enc_attr a)" s' g'] Cons.prems(1-3)
    by (auto simp: s'_def g'_def or_last_assoc split: option.splits)
qed

subsection \<open>What a dump says of the gateway\<close>

definition format_gateway :: "'w os \<Rightarrow> nat \<Rightarrow> bytes \<Rightarrow> string option" where
  "format_gateway os fam bs =
     (if fam = AF_INET \<and> length bs = 4 \<or> fam = AF_INET6 \<and> length bs = 16
      then sys_inet_ntop os fam bs else None)"

text \<open>
  The gateway a frame names for the interface \<open>i\<close> and family \<open>fam\<close>: a default route of that
  family through that interface, with a gateway of the family's size.
\<close>

fun gateway_in :: "'w os \<Rightarrow> gateway_resolver \<Rightarrow> route_frame \<Rightarrow> string option" where
  "gateway_in os gr (Route_frame fam dst rest as) =
     (if fam = gr_family gr \<and> dst = 0 \<and>
         (case last_attr RTA_OIF as of Some bs \<Rightarrow> i32_of bs | None \<Rightarrow> -1) = gr_ifindex gr
      then case last_attr RTA_GATEWAY as of Some bs \<Rightarrow> format_gateway os fam bs | None \<Rightarrow> None
      else None)"
| "gateway_in os gr _ = None"

fun is_end :: "route_frame \<Rightarrow> bool" where
  "is_end (Dump_end err body) = True"
| "is_end _ = False"

lemma formatGateway_points:
  assumes "points_to cap m (Some (at, n)) g"
  shows "\<exists>bs. g = Some bs \<and> formatGateway os cap m gr at n = Some (format_gateway os (gr_family gr) bs)"
proof -
  from assms obtain bs where bs: "g = Some bs" "n = length bs" "holds m at bs" "at + n \<le> cap"
    by (auto simp: points_to_def)
  then have "rd_bytes cap m at (length bs) = Some bs" by (intro rd_bytes_holds) simp_all
  with bs show ?thesis by (auto simp: formatGateway_def format_gateway_def)
qed

lemma length_enc_route:
  "wf_route f \<Longrightarrow> 4 dvd length (enc_route f) \<and> 16 \<le> length (enc_route f) \<and> length (enc_route f) \<le> 8192"
  using dvd_length_enc_attrs
  by (cases f) (auto simp: enc_route_def layout_simps wf_msg_def route_body_def)

lemma route_msg_type: "wf_route f \<Longrightarrow> fst (route_msg f) < 65536"
  by (cases f) (auto simp: wf_msg_def)

lemma parse_route:
  assumes wf: "wf_route f" and f: "f = Route_frame fam dst rest as" and h: "holds m off (enc_route f)"
    and fit: "off + length (enc_route f) \<le> cap"
  shows "parseDefaultRouteGateway os cap m gr off (length (enc_route f)) = Some (gateway_in os gr f)"
proof -
  let ?as = "concat (map enc_attr as)"
  have n: "length (enc_route f) = 28 + length ?as"
    using wf f by (simp add: enc_route_def layout_simps route_body_def)
  have small: "length ?as < 8192" using wf f by (simp add: route_body_def)
  have body: "holds m (off + 16) ([of_nat fam, of_nat dst] @ rest @ ?as)"
    using holds_enc_msg(3) [OF h [unfolded enc_route_def]] f by (simp add: route_body_def)
  then have a: "holds m (off + 28) ?as" using wf f by (simp add: add_ac)
  have rd: "rd8 cap m (off + 16) = Some fam" "rd8 cap m (off + 17) = Some dst"
  proof -
    have "m (off + 16) = of_nat fam" "m (off + 17) = of_nat dst" using body by (simp_all add: add.commute)
    with fit n wf f show "rd8 cap m (off + 16) = Some fam" "rd8 cap m (off + 17) = Some dst"
      by (simp_all add: rd8_def)
  qed
  have pay: "route_payload (length (enc_route f)) = int (length ?as)"
    using small by (simp add: route_payload_def n to_i32_of_i32)
  have "list_all wf_route_attr as" using wf f by simp
  moreover have "off + 28 + length ?as \<le> cap" using fit n by simp
  moreover have "points_to cap m (snd (-1 :: int, None)) None" by (simp add: points_to_def)
  ultimately obtain p where
    loop: "route_loop cap m (off + 28) (int (length ?as)) (-1, None) =
      Some (case last_attr RTA_OIF as of Some bs \<Rightarrow> i32_of bs | None \<Rightarrow> -1, p)"
    and p: "points_to cap m p (last_attr RTA_GATEWAY as)"
    using route_loop_attrs [of as m "off + 28" cap "(-1, None)" None] a unfolding fst_conv by auto
  have spec: "gateway_in os gr f =
      (if fam = gr_family gr \<and> dst = 0 \<and>
         (case last_attr RTA_OIF as of Some bs \<Rightarrow> i32_of bs | None \<Rightarrow> -1) = gr_ifindex gr
       then case last_attr RTA_GATEWAY as of Some bs \<Rightarrow> format_gateway os (gr_family gr) bs | None \<Rightarrow> None
       else None)" by (auto simp: f)
  have "(case p of None \<Rightarrow> Some None | Some (at, n) \<Rightarrow> formatGateway os cap m gr at n) =
      Some (case last_attr RTA_GATEWAY as of Some bs \<Rightarrow> format_gateway os (gr_family gr) bs | None \<Rightarrow> None)"
  proof (cases p)
    case None
    with p show ?thesis by (simp add: points_to_def)
  next
    case (Some q)
    then obtain at n where q: "p = Some (at, n)" by (cases q) auto
    from formatGateway_points [OF p [unfolded q], of os gr] q show ?thesis by auto
  qed
  with loop rd pay show ?thesis
    by (simp add: parseDefaultRouteGateway_def spec del: bind_Some_iff)
qed

definition route_step :: "'w os \<Rightarrow> gateway_resolver \<Rightarrow> route_frame \<Rightarrow> string option
    \<Rightarrow> string option + (string option \<times> bool) option" where
  "route_step os gr f s = (if is_end f then Inr (Some (s, True)) else Inl (or_last (gateway_in os gr f) s))"

interpretation rts: frame_loop enc_route wf_route cap "\<lambda>m off n s. scanBatch os cap m gr off n s"
  "route_step os gr" "\<lambda>s. Some (s, False)" for cap os gr
proof unfold_locales
  fix m off and s :: "string option"
  show "scanBatch os cap m gr off 0 s = Some (s, False)" by (simp add: scanBatch.simps)
next
  fix f m off n and s :: "string option"
  assume wf: "wf_route f" and h: "holds m off (enc_route f)" and fit: "off + length (enc_route f) \<le> cap"
    and n: "int (length (enc_route f)) \<le> n"
  let ?l = "length (enc_route f)"
  note l = length_enc_route [OF wf]
  have align: "NLMSG_ALIGN ?l = ?l" using l by (intro layout_simps) auto
  have hd: "rd32 cap m off = Some ?l" "rd16 cap m (off + 4) = Some (fst (route_msg f))"
    using enc_msg_header [OF route_msg_type [OF wf] _ h [unfolded enc_route_def]
        fit [unfolded enc_route_def]] l by (simp_all add: enc_route_def)
  have go: "(n < 16) = False" "(?l < 16 \<or> n < int ?l) = False" using l n by auto
  show "scanBatch os cap m gr off n s =
      (case route_step os gr f s of
         Inl s' \<Rightarrow> scanBatch os cap m gr (off + ?l) (n - int ?l) s'
       | Inr r \<Rightarrow> r)"
  proof (cases f)
    case (Route_frame fam dst rest as)
    then have ty: "fst (route_msg f) = RTM_NEWROUTE" "is_end f = False" by simp_all
    show ?thesis
      by (subst scanBatch.simps)
        (simp add: hd(1) hd(2) [unfolded ty(1)] go align route_step_def ty(2)
          parse_route [OF wf Route_frame h fit] or_last_def del: bind_Some_iff split: option.split)
  next
    case (Dump_end err body)
    then have ty: "fst (route_msg f) = NLMSG_DONE \<or> fst (route_msg f) = NLMSG_ERROR" "is_end f" by auto
    show ?thesis
      by (subst scanBatch.simps) (simp add: hd go ty route_step_def del: bind_Some_iff)
  next
    case (Other_route_frame ty body)
    with wf have ty: "fst (route_msg f) \<noteq> RTM_NEWROUTE" "is_end f = False" "gateway_in os gr f = None"
      "(fst (route_msg f) = NLMSG_DONE \<or> fst (route_msg f) = NLMSG_ERROR) = False" by auto
    show ?thesis
      by (subst scanBatch.simps) (simp add: hd go align route_step_def ty del: bind_Some_iff)
  qed
qed

subsection \<open>Properties\<close>

text \<open>The gateways of the frames up to the end of the dump, and the last one.\<close>

definition dump_gateways :: "'w os \<Rightarrow> gateway_resolver \<Rightarrow> route_frame list \<Rightarrow> string list" where
  "dump_gateways os gr fs = List.map_filter (gateway_in os gr) (takeWhile (\<lambda>f. \<not> is_end f) fs)"

definition last_of :: "'a list \<Rightarrow> 'a option" where
  "last_of xs = (if xs = [] then None else Some (last xs))"

lemma last_of_simps [simp]:
  "last_of [] = None" "last_of (x # xs) = or_last (last_of xs) (Some x)"
  "last_of (xs @ ys) = or_last (last_of ys) (last_of xs)"
  by (auto simp: last_of_def)

lemma dump_gateways_Cons:
  "last_of (dump_gateways os gr (f # fs)) =
     (if is_end f then None else or_last (last_of (dump_gateways os gr fs)) (gateway_in os gr f))"
  by (auto simp: dump_gateways_def List.map_filter_simps split: option.split)

lemma run_route_step:
  "run_frames (route_step os gr) (\<lambda>s. Some (s, False)) fs s =
     Some (or_last (last_of (dump_gateways os gr fs)) s, list_ex is_end fs)"
proof (induction fs arbitrary: s)
  case (Cons f fs)
  then show ?case
    by (simp add: dump_gateways_Cons route_step_def or_last_assoc)
qed (simp add: dump_gateways_def List.map_filter_simps)

lemma scanBatch_frames:
  assumes "list_all wf_route fs" and "length (concat (map enc_route fs)) \<le> 8192"
  shows "scanBatch os 8192 (store (concat (map enc_route fs)) m) gr 0 (int (length (concat (map enc_route fs)))) s =
    Some (or_last (last_of (dump_gateways os gr fs)) s, list_ex is_end fs)"
  using rts.loop_frames [of fs "store (concat (map enc_route fs)) m" 0 8192 os gr s] assms
  by (simp only: add_0 holds_store order_refl run_route_step)

text \<open>
  A dump in one or more datagrams: it goes on until one of them contains the end message, or
  the socket fails or is closed.
\<close>

inductive route_dump :: "'w os \<Rightarrow> int \<Rightarrow> route_frame list list \<Rightarrow> 'w \<Rightarrow> 'w \<Rightarrow> bool" for os fd where
  failed: "sys_recv os fd False w = (r, w') \<Longrightarrow> r = None \<or> r = Some [] \<Longrightarrow> route_dump os fd [] w w'"
| ended: "sys_recv os fd False w = (Some (concat (map enc_route fs)), w') \<Longrightarrow> list_all wf_route fs \<Longrightarrow>
    length (concat (map enc_route fs)) \<le> 8192 \<Longrightarrow> list_ex is_end fs \<Longrightarrow> route_dump os fd [fs] w w'"
| more: "sys_recv os fd False w = (Some (concat (map enc_route fs)), w1) \<Longrightarrow> list_all wf_route fs \<Longrightarrow>
    fs \<noteq> [] \<Longrightarrow> length (concat (map enc_route fs)) \<le> 8192 \<Longrightarrow> \<not> list_ex is_end fs \<Longrightarrow>
    route_dump os fd fss w1 w' \<Longrightarrow> route_dump os fd (fs # fss) w w'"

lemma enc_routes_nonempty:
  "list_all wf_route fs \<Longrightarrow> fs \<noteq> [] \<Longrightarrow> (concat (map enc_route fs) = []) = False"
  using length_enc_route [of "hd fs"] by (cases fs) auto

lemma dump_gateways_append:
  "\<not> list_ex is_end fs \<Longrightarrow> dump_gateways os gr (fs @ gs) = dump_gateways os gr fs @ dump_gateways os gr gs"
  by (induction fs) (auto simp: dump_gateways_def List.map_filter_simps split: option.split)

lemma drain_dump:
  "route_dump os fd fss w w' \<Longrightarrow>
   drain os gr fd m result w = Some (or_last (last_of (dump_gateways os gr (concat fss))) result, w')"
proof (induction arbitrary: m result rule: route_dump.induct)
  case (failed w r w')
  then show ?case by (subst drain.simps) (auto simp: dump_gateways_def List.map_filter_simps)
next
  case (ended w fs w')
  have "fs \<noteq> []" using ended.hyps(4) by auto
  note ne = enc_routes_nonempty [OF ended.hyps(2) this]
  show ?case
    by (subst drain.simps)
      (simp add: ended.hyps(1,4) ne received_simps [OF ended.hyps(3)] scanBatch_frames [OF ended.hyps(2,3)]
        or_last_def del: concat_eq_Nil_conv split: option.split)
next
  case (more w fs w1 fss w')
  note ne = enc_routes_nonempty [OF more.hyps(2,3)]
  show ?case
    by (subst drain.simps)
      (simp add: more.hyps(1) more.hyps(5) ne received_simps [OF more.hyps(4)]
        scanBatch_frames [OF more.hyps(2,4)] more.IH dump_gateways_append [OF more.hyps(5)]
        or_last_def del: concat_eq_Nil_conv split: option.split)
qed

text \<open>C7: For every dump the kernel can send (any number of datagrams of well-formed messages up
  to the end message or a failing receive), \<open>resolveGateway\<close> returns, with its socket closed,
  the gateway of the last default route of the asked family through the asked interface, and no
  address if there is none: routes of other families, interfaces or prefixes and gateways of the
  wrong size never count.\<close>

theorem resolveGateway_last_default_route:
  assumes "sys_if_nametoindex os iface w = (i, w1)" and "0 < i" and "i < 2 ^ 31"
    and "sys_socket os AF_NETLINK SOCK_RAW NETLINK_ROUTE w1 = (fd, w2)" and "0 \<le> fd"
    and "sys_send os fd (buildRequest \<lparr>gr_family = family, gr_ifindex = int i\<rparr>) w2 = (28, w3)"
    and "route_dump os fd fss w3 w4"
  shows "resolveGateway os m iface family w =
    Some (last_of (dump_gateways os \<lparr>gr_family = family, gr_ifindex = int i\<rparr> (concat fss)), sys_close os fd w4)"
proof -
  have i: "to_i32 i = int i" using assms(3) by (simp add: to_i32_def)
  show ?thesis
    using assms(2,5)
    by (simp add: resolveGateway_def new_gateway_resolver_def assms(1,4,6) i gr_resolve_def
        sendRequestAndDrain_def drain_dump [OF assms(7)] split: option.split)
qed

definition sample_dump :: "route_frame list list" where
  "sample_dump =
     [[Route_frame AF_INET 24 (replicate 10 0) [(RTA_OIF, le32 3), (RTA_GATEWAY, bytes_of ''zzzz'')],
       Route_frame AF_INET 0 (replicate 10 0) [(RTA_GATEWAY, bytes_of ''abcd''), (RTA_OIF, le32 3)],
       Route_frame AF_INET 0 (replicate 10 0) [(RTA_OIF, le32 4), (RTA_GATEWAY, bytes_of ''yyyy'')]],
      [Dump_end False (replicate 4 0)]]"

definition route_os :: "bytes list os" where
  "route_os = dns_os\<lparr>
     sys_if_nametoindex := (\<lambda>i w. (3, w)), sys_socket := (\<lambda>d t p w. (7, w)),
     sys_send := (\<lambda>fd bs w. (int (length bs), w)),
     sys_recv := (\<lambda>fd dw q. case q of [] \<Rightarrow> (None, []) | d # q \<Rightarrow> (Some d, q))\<rparr>"

lemma sample_dump_ok:
  "list_all (list_all wf_route) sample_dump"
  "list_all (\<lambda>fs. length (concat (map enc_route fs)) \<le> 8192) sample_dump"
  by (simp_all add: sample_dump_def enc_route_def layout_simps RTA_ALIGN_def wf_attr_def wf_route_attr_def
      route_body_def)

lemma sample_dump_runs:
  "route_dump route_os 7 sample_dump (map (\<lambda>fs. concat (map enc_route fs)) sample_dump) []"
proof -
  obtain f fs g where d: "sample_dump = [f # fs, [g]]" and e: "\<not> list_ex is_end (f # fs)" "is_end g"
    by (simp add: sample_dump_def)
  have "route_dump route_os 7 [f # fs, [g]] [concat (map enc_route (f # fs)), concat (map enc_route [g])] []"
    by (rule route_dump.more [where ?w1.0 = "[concat (map enc_route [g])]", OF _ _ _ _ e(1) route_dump.ended])
      (use sample_dump_ok e(2) in \<open>simp_all add: d route_os_def\<close>)
  then show ?thesis by (simp add: d)
qed

lemma sample_dump_gateways:
  "last_of (dump_gateways route_os \<lparr>gr_family = AF_INET, gr_ifindex = 3\<rparr> (concat sample_dump)) = Some ''4abcd''"
  by (simp add: sample_dump_def dump_gateways_def List.map_filter_simps format_gateway_def i32_of_def
      to_i32_def le32_def route_os_def dns_os_def)

lemma route_os_simps [simp]:
  "sys_if_nametoindex route_os nm w = (3, w)" "sys_socket route_os d t p w = (7, w)"
  "sys_send route_os fd bs w = (int (length bs), w)" "sys_close route_os fd w = w"
  by (simp_all add: route_os_def dns_os_def idle_os_def)

theorem resolveGateway_last_default_route_witness:
  "resolveGateway route_os (\<lambda>_. 0) ''wlan0'' AF_INET (map (\<lambda>fs. concat (map enc_route fs)) sample_dump)
   = Some (Some ''4abcd'', [])"
  using resolveGateway_last_default_route [where os = route_os and i = 3 and fd = 7 and family = AF_INET
      and iface = "''wlan0''" and m = "\<lambda>_. 0", OF _ _ _ _ _ _ sample_dump_runs] sample_dump_gateways
  by (simp add: buildRequest_def layout_simps)

lemma last_of_in: "last_of xs = Some x \<Longrightarrow> x \<in> set xs"
  by (auto simp: last_of_def split: if_splits)

lemma format_gateway_pton:
  "inet_laws os \<Longrightarrow> format_gateway os fam bs = Some s \<Longrightarrow> sys_inet_pton os fam s = Some bs"
  by (auto simp: format_gateway_def inet_laws_def split: if_splits)

text \<open>A gateway that \<open>resolveGateway\<close> reports is always that of a default route (destination
  prefix of length zero) of the asked family whose outgoing interface is the asked one, and
  \<open>inet_pton\<close> reads the reported text back as exactly the bytes the kernel gave.\<close>

lemma resolveGateway_sound:
  assumes "sys_if_nametoindex os iface w = (i, w1)" and "0 < i" and "i < 2 ^ 31"
    and "sys_socket os AF_NETLINK SOCK_RAW NETLINK_ROUTE w1 = (fd, w2)" and "0 \<le> fd"
    and "sys_send os fd (buildRequest \<lparr>gr_family = family, gr_ifindex = int i\<rparr>) w2 = (28, w3)"
    and "route_dump os fd fss w3 w4" and "inet_laws os"
    and "resolveGateway os m iface family w = Some (Some s, w5)"
  shows "\<exists>rest as oif gw. Route_frame family 0 rest as \<in> set (concat fss) \<and>
    last_attr RTA_OIF as = Some oif \<and> i32_of oif = int i \<and>
    last_attr RTA_GATEWAY as = Some gw \<and> sys_inet_pton os family s = Some gw"
proof -
  let ?gr = "\<lparr>gr_family = family, gr_ifindex = int i\<rparr>"
  have i: "to_i32 i = int i" using assms(3) by (simp add: to_i32_def)
  have "last_of (dump_gateways os ?gr (concat fss)) = Some s"
    using assms(2,5,9) by (simp add: resolveGateway_def new_gateway_resolver_def assms(1,4,6) i gr_resolve_def
        sendRequestAndDrain_def drain_dump [OF assms(7)])
  then have "s \<in> set (dump_gateways os ?gr (concat fss))" by (rule last_of_in)
  then obtain f where f: "f \<in> set (concat fss)" and g: "gateway_in os ?gr f = Some s"
    by (auto simp: dump_gateways_def List.map_filter_def dest!: set_takeWhileD)
  from g obtain fam rest as where F: "f = Route_frame fam 0 rest as" by (cases f) (auto split: if_splits)
  have neg: "- 1 \<noteq> int i" by simp
  from g obtain oif gw where "fam = family" "last_attr RTA_OIF as = Some oif" "i32_of oif = int i"
    "last_attr RTA_GATEWAY as = Some gw" "format_gateway os fam gw = Some s"
    by (auto simp: F split: if_splits option.splits)
  with f F format_gateway_pton [OF assms(8)] show ?thesis by blast
qed

lemma route_os_laws: "inet_laws route_os"
  using dns_os_laws by (simp add: inet_laws_def route_os_def dns_os_def)

lemma resolveGateway_sound_witness:
  "sys_inet_pton route_os AF_INET ''4abcd'' \<noteq> None"
proof -
  have r: "resolveGateway route_os (\<lambda>_. 0) ''wlan0'' AF_INET (map (\<lambda>fs. concat (map enc_route fs)) sample_dump)
     = Some (Some ''4abcd'', [])"
    unfolding resolveGateway_def new_gateway_resolver_def gr_resolve_def sendRequestAndDrain_def
    using drain_dump [OF sample_dump_runs, of _ "\<lambda>_. 0" None] sample_dump_gateways
    by (simp add: to_i32_def buildRequest_def layout_simps)
  show ?thesis
    using resolveGateway_sound [where os = route_os and i = 3 and fd = 7 and family = AF_INET
      and iface = "''wlan0''", OF _ _ _ _ _ _ sample_dump_runs route_os_laws r]
    by (auto simp: buildRequest_def layout_simps)
qed

end
