(* ===== verification/Gateway_Override.thy ===== *)
theory Gateway_Override
  imports Prelude
begin

section \<open>The gateway override setting (gateway_override.cpp)\<close>

text \<open>
  \<open>GatewayOverride\<close> reads the setting \<open>gateway_ip_override4\<close> or \<open>gateway_ip_override6\<close>: empty
  means the kernel's default route, the word \<open>none\<close> in any case disables the check, and
  anything else is an address to use. \<open>std::tolower\<close> is that of the \<open>C\<close> and UTF-8 locales, where
  it changes the letters \<open>A\<close> to \<open>Z\<close> only.
\<close>

datatype override_mode = Auto | Fixed | Disabled

record gateway_override =
  go_mode :: override_mode
  go_fixedIp :: string

definition tolower :: "char \<Rightarrow> char" where
  "tolower c =
     (let n = of_char c :: nat in if 65 \<le> n \<and> n \<le> 90 then char_of (n + 32) else c)"

definition toLower :: "string \<Rightarrow> string" where
  "toLower s = map tolower s"

definition DisabledSentinel :: string where
  "DisabledSentinel = ''none''"

definition GatewayOverride :: "string \<Rightarrow> gateway_override" where
  "GatewayOverride configValue =
     (if configValue = [] then \<lparr>go_mode = Auto, go_fixedIp = []\<rparr>
      else if toLower configValue = DisabledSentinel then \<lparr>go_mode = Disabled, go_fixedIp = []\<rparr>
      else \<lparr>go_mode = Fixed, go_fixedIp = configValue\<rparr>)"

lemma char_code: "c = d \<longleftrightarrow> (of_char c :: nat) = of_char d"
  by (metis char_of_char)

lemma of_char_tolower:
  "(of_char (tolower c) :: nat) =
     (let n = of_char c in if 65 \<le> n \<and> n \<le> 90 then n + 32 else n)"
  by (simp add: tolower_def Let_def)

lemma tolower_eq_lower:
  assumes "of_char d = m" and "97 \<le> m" and "m \<le> (122 :: nat)" and "of_char e = m - 32"
  shows "tolower c = d \<longleftrightarrow> c = d \<or> c = e"
  unfolding char_code [of "tolower c"] char_code [of c] of_char_tolower assms(1,4)
  using assms(2,3) by (auto simp: Let_def)

lemma none_spellings:
  "toLower v = ''none'' \<longleftrightarrow>
     (\<exists>a b c d. v = [a, b, c, d] \<and> a \<in> set ''nN'' \<and> b \<in> set ''oO'' \<and> c \<in> set ''nN'' \<and> d \<in> set ''eE'')"
proof -
  have "tolower a = CHR ''n'' \<longleftrightarrow> a \<in> set ''nN''" for a
    using tolower_eq_lower [of _ 110 "CHR ''N''" a] by simp
  moreover have "tolower a = CHR ''o'' \<longleftrightarrow> a \<in> set ''oO''" for a
    using tolower_eq_lower [of _ 111 "CHR ''O''" a] by simp
  moreover have "tolower a = CHR ''e'' \<longleftrightarrow> a \<in> set ''eE''" for a
    using tolower_eq_lower [of _ 101 "CHR ''E''" a] by simp
  moreover have "map f v = [x, y, z, u] \<longleftrightarrow>
      (\<exists>a b c d. v = [a, b, c, d] \<and> f a = x \<and> f b = y \<and> f c = z \<and> f d = u)" for f :: "char \<Rightarrow> char" and x y z u
    by (auto simp: map_eq_Cons_conv)
  ultimately show ?thesis by (simp only: toLower_def)
qed

text \<open>C32: The override setting is read without regard to case and loses nothing: the gateway
  check is disabled for exactly the sixteen spellings of the word none, is automatic for exactly
  the empty setting, and in every other case the address used is the setting itself,
  unchanged; an address is present in no other mode.\<close>

theorem override_modes:
  "(go_mode (GatewayOverride v) = Auto \<longleftrightarrow> v = []) \<and>
   (go_mode (GatewayOverride v) = Disabled \<longleftrightarrow>
     (\<exists>a b c d. v = [a, b, c, d] \<and> a \<in> set ''nN'' \<and> b \<in> set ''oO'' \<and> c \<in> set ''nN'' \<and> d \<in> set ''eE'')) \<and>
   go_fixedIp (GatewayOverride v) = (if go_mode (GatewayOverride v) = Fixed then v else [])"
  unfolding GatewayOverride_def DisabledSentinel_def none_spellings by auto

end
