(* ===== verification/Ping_Track.thy ===== *)
theory Ping_Track
  imports Icmp Gateway_Resolver Gateway_Override
begin

section \<open>One protocol of the monitor (ping_monitor_tick.cpp, ping_monitor_socket4.cpp, ping_monitor_socket6.cpp)\<close>

text \<open>
  The monitor keeps a \<open>ProtoTrack\<close> and a sequence number for each of IPv4 and IPv6, and has
  every operation on them twice, with 4 and 6 in its name. The two copies differ only in what a
  \<open>family\<close> holds, so they are one definition here, and the monitor's operations are its instances
  at \<open>inet4\<close> and \<open>inet6\<close>.
\<close>

subsection \<open>State\<close>

datatype severity = Green | Blue | Yellow | Red
datatype proto_state = NoLocalAddress | Failing | Healthy

text \<open>\<open>failStreak\<close> is an \<open>int\<close> that grows by one per tick of a second, 68 years from its limit.\<close>

record proto_track =
  configured :: bool
  targetIp :: string
  sock :: int
  failStreak :: int
  hasLocalAddress :: bool
  recheckTicksLeft :: int
  gatewayMode :: override_mode
  gatewayIp :: string
  gatewayResolved :: bool
  gatewayReachable :: bool

definition new_track :: proto_track where
  "new_track = \<lparr>configured = False, targetIp = [], sock = -1, failStreak = 0, hasLocalAddress = False,
     recheckTicksLeft = 0, gatewayMode = Auto, gatewayIp = [], gatewayResolved = False,
     gatewayReachable = False\<rparr>"

abbreviation (input) "FailStreakForGatewayCheck \<equiv> (10 :: int)"
abbreviation (input) "FailStreakForSocketRecreate \<equiv> (10 :: int)"
abbreviation (input) "LocalAddressRecheckTicks \<equiv> (10 :: int)"

definition stateOf :: "proto_track \<Rightarrow> proto_state" where
  "stateOf t =
     (if \<not> configured t \<or> \<not> hasLocalAddress t then NoLocalAddress
      else if failStreak t = 0 then Healthy else Failing)"

definition severityOf :: "proto_track \<Rightarrow> severity" where
  "severityOf t =
     (if failStreak t < FailStreakForGatewayCheck then Yellow
      else if gatewayReachable t then Blue else Red)"

subsection \<open>Sockets\<close>

definition openSocket :: "family \<Rightarrow> 'w os \<Rightarrow> string \<Rightarrow> proto_track \<Rightarrow> 'w \<Rightarrow> proto_track \<times> 'w" where
  "openSocket fam os iface t w =
     (let w = (if 0 \<le> sock t then sys_close os (sock t) w else w);
          (fd, w) = sys_socket os (fam_af fam) SOCK_RAW (fam_ipproto fam) w;
          t = t\<lparr>sock := fd\<rparr>
      in if fd < 0 then (t, w)
         else let (rc, w) = sys_bindtodevice os fd iface w;
                  (rc, w) = sys_rcvtimeo os fd (0, 800 * 1000) w
              in (t, w))"

text \<open>The result, the next sequence number and the world.\<close>

definition sendPing ::
  "family \<Rightarrow> 'w os \<Rightarrow> u16 \<Rightarrow> string \<Rightarrow> proto_track \<Rightarrow> u16 \<Rightarrow> 'w \<Rightarrow> bool \<times> u16 \<times> 'w" where
  "sendPing fam os pid destIp t seq w =
     (if sock t < 0 then (False, seq, w)
      else case sys_inet_pton os (fam_af fam) destIp of
        None \<Rightarrow> (False, seq, w)
      | Some addr \<Rightarrow>
          (let (n, w) = sys_sendto os (sock t) (fam_request fam pid seq) (fam_sockaddr fam addr) w
           in (n = 24, seq + 1, w)))"

text \<open>\<open>junk w\<close> is what the receive array on the stack holds when the function is entered.\<close>

definition recvReply ::
  "family \<Rightarrow> 'w os \<Rightarrow> ('w \<Rightarrow> buf) \<Rightarrow> u16 \<Rightarrow> proto_track \<Rightarrow> 'w \<Rightarrow> (bool \<times> 'w) option" where
  "recvReply fam os junk pid t w =
     (if sock t < 0 then Some (False, w)
      else recv_loop (fam_matching fam) os (sock t) pid (junk w) w)"

text \<open>The condition \<open>sendPing(...) && recvReply()\<close>.\<close>

definition ping ::
  "family \<Rightarrow> 'w os \<Rightarrow> ('w \<Rightarrow> buf) \<Rightarrow> u16 \<Rightarrow> string \<Rightarrow> proto_track \<Rightarrow> u16 \<Rightarrow> 'w
   \<Rightarrow> (bool \<times> u16 \<times> 'w) option" where
  "ping fam os junk pid destIp t seq w =
     (case sendPing fam os pid destIp t seq w of
        (sent, seq, w) \<Rightarrow>
          if sent then do { (r, w) \<leftarrow> recvReply fam os junk pid t w; Some (r, seq, w) }
          else Some (False, seq, w))"

subsection \<open>A tick\<close>

definition maybeRecheckLocalAddress ::
  "'w os \<Rightarrow> string \<Rightarrow> proto_track \<Rightarrow> nat \<Rightarrow> 'w \<Rightarrow> proto_track \<times> 'w" where
  "maybeRecheckLocalAddress os iface t family w =
     (if \<not> configured t \<or> hasLocalAddress t then (t, w)
      else if 0 < recheckTicksLeft t then (t\<lparr>recheckTicksLeft := recheckTicksLeft t - 1\<rparr>, w)
      else let (b, w) = ifaceHasAddress os iface family w
           in (t\<lparr>hasLocalAddress := b, recheckTicksLeft := LocalAddressRecheckTicks\<rparr>, w))"

text \<open>The gateway's address is looked up once, at the first check that needs it.\<close>

definition lookupGateway ::
  "family \<Rightarrow> 'w os \<Rightarrow> ('w \<Rightarrow> buf) \<Rightarrow> string \<Rightarrow> proto_track \<Rightarrow> 'w \<Rightarrow> (proto_track \<times> 'w) option" where
  "lookupGateway fam os junk iface t w =
     (if gatewayResolved t then Some (t, w)
      else do {
        (gw, w) \<leftarrow> resolveGateway os (junk w) iface (fam_af fam) w;
        let t = t\<lparr>gatewayResolved := True\<rparr>;
        Some (case gw of Some g \<Rightarrow> t\<lparr>gatewayIp := g\<rparr> | None \<Rightarrow> t, w)
      })"

definition checkGateway ::
  "family \<Rightarrow> 'w os \<Rightarrow> ('w \<Rightarrow> buf) \<Rightarrow> string \<Rightarrow> u16 \<Rightarrow> proto_track \<Rightarrow> u16 \<Rightarrow> 'w
   \<Rightarrow> (proto_track \<times> u16 \<times> 'w) option" where
  "checkGateway fam os junk iface pid t seq w =
     (if gatewayMode t = Disabled then Some (t\<lparr>gatewayReachable := False\<rparr>, seq, w)
      else do {
        (t, w) \<leftarrow> lookupGateway fam os junk iface t w;
        if gatewayIp t = [] then Some (t\<lparr>gatewayReachable := False\<rparr>, seq, w)
        else do {
          (r, seq, w) \<leftarrow> ping fam os junk pid (gatewayIp t) t seq w;
          Some (t\<lparr>gatewayReachable := r\<rparr>, seq, w)
        }
      })"

definition tickProto ::
  "family \<Rightarrow> 'w os \<Rightarrow> ('w \<Rightarrow> buf) \<Rightarrow> string \<Rightarrow> u16 \<Rightarrow> proto_track \<times> u16 \<times> 'w
   \<Rightarrow> (proto_track \<times> u16 \<times> 'w) option" where
  "tickProto fam os junk iface pid s =
     (let (t, seq, w) = s;
          (t, w) = maybeRecheckLocalAddress os iface t (fam_af fam) w
      in if \<not> configured t \<or> \<not> hasLocalAddress t then Some (t, seq, w)
         else do {
           (ok, seq, w) \<leftarrow> ping fam os junk pid (targetIp t) t seq w;
           if ok then Some (t\<lparr>failStreak := 0, gatewayReachable := False\<rparr>, seq, w)
           else do {
             let t = t\<lparr>failStreak := failStreak t + 1\<rparr>;
             let (t, w) = (if failStreak t mod FailStreakForSocketRecreate = 0
                           then openSocket fam os iface t w else (t, w));
             if FailStreakForGatewayCheck \<le> failStreak t
             then checkGateway fam os junk iface pid t seq w
             else Some (t, seq, w)
           }
         })"

subsection \<open>What each part leaves alone\<close>

lemma openSocket_frame:
  "openSocket fam os iface t w = (t', w') \<Longrightarrow> t' = t\<lparr>sock := sock t'\<rparr>"
  by (auto simp: openSocket_def Let_def split: prod.splits if_splits)

lemma maybeRecheck_frame:
  assumes "maybeRecheckLocalAddress os iface t family w = (t', w')"
  shows "t' = t\<lparr>hasLocalAddress := hasLocalAddress t', recheckTicksLeft := recheckTicksLeft t'\<rparr>"
    and "hasLocalAddress t \<Longrightarrow> t' = t \<and> w' = w"
    and "hasLocalAddress t' \<Longrightarrow> hasLocalAddress t \<or> configured t"
    and "0 \<le> recheckTicksLeft t \<and> recheckTicksLeft t \<le> 10 \<Longrightarrow>
      0 \<le> recheckTicksLeft t' \<and> recheckTicksLeft t' \<le> 10"
  using assms by (auto simp: maybeRecheckLocalAddress_def split: prod.splits if_splits)

text \<open>What a gateway check can change, and when it can succeed.\<close>

definition gateway_checked :: "proto_track \<Rightarrow> proto_track \<Rightarrow> bool" where
  "gateway_checked t t' \<longleftrightarrow>
     t' = t\<lparr>gatewayIp := gatewayIp t', gatewayResolved := gatewayResolved t', gatewayReachable := gatewayReachable t'\<rparr> \<and>
     (gatewayResolved t \<longrightarrow> gatewayResolved t' \<and> gatewayIp t' = gatewayIp t) \<and>
     (gatewayReachable t' \<longrightarrow> gatewayMode t \<noteq> Disabled \<and> gatewayResolved t' \<and> gatewayIp t' \<noteq> [])"

lemma lookupGateway_frame:
  "lookupGateway fam os junk iface t w = Some (t', w') \<Longrightarrow>
     t' = t\<lparr>gatewayIp := gatewayIp t', gatewayResolved := True\<rparr> \<and> (gatewayResolved t \<longrightarrow> gatewayIp t' = gatewayIp t)"
  by (auto simp: lookupGateway_def Let_def split: if_splits option.splits)

lemma checkGateway_checked:
  assumes "checkGateway fam os junk iface pid t seq w = Some (t', seq', w')"
  shows "gateway_checked t t'"
proof (cases "gatewayMode t = Disabled")
  case True
  with assms show ?thesis by (auto simp: checkGateway_def gateway_checked_def)
next
  case False
  with assms obtain t1 w1 where l: "lookupGateway fam os junk iface t w = Some (t1, w1)"
    by (auto simp: checkGateway_def)
  from assms False l obtain r where "t' = t1\<lparr>gatewayReachable := r\<rparr>" "r \<longrightarrow> gatewayIp t1 \<noteq> []"
    by (auto simp: checkGateway_def split: if_splits)
  moreover obtain ip where "t1 = t\<lparr>gatewayIp := ip, gatewayResolved := True\<rparr>"
    and "gatewayResolved t \<longrightarrow> ip = gatewayIp t"
    using lookupGateway_frame [OF l] by metis
  ultimately show ?thesis using False by (simp add: gateway_checked_def)
qed

text \<open>The three ways a tick can go.\<close>

definition recreated ::
  "family \<Rightarrow> 'w os \<Rightarrow> string \<Rightarrow> proto_track \<Rightarrow> 'w \<Rightarrow> proto_track \<times> 'w" where
  "recreated fam os iface t w =
     (if (failStreak t + 1) mod 10 = 0 then openSocket fam os iface (t\<lparr>failStreak := failStreak t + 1\<rparr>) w
      else (t\<lparr>failStreak := failStreak t + 1\<rparr>, w))"

lemma tickProto_cases:
  assumes "tickProto fam os junk iface pid (t, seq, w) = Some (t', seq', w')"
  obtains
    (idle) "maybeRecheckLocalAddress os iface t (fam_af fam) w = (t', w')" "seq' = seq"
      "\<not> (configured t' \<and> hasLocalAddress t')"
  | (reply) t1 w1 where "maybeRecheckLocalAddress os iface t (fam_af fam) w = (t1, w1)"
      "configured t1" "hasLocalAddress t1"
      "ping fam os junk pid (targetIp t1) t1 seq w1 = Some (True, seq', w')"
      "t' = t1\<lparr>failStreak := 0, gatewayReachable := False\<rparr>"
  | (lost) t1 w1 seq2 w2 t3 w3 where "maybeRecheckLocalAddress os iface t (fam_af fam) w = (t1, w1)"
      "configured t1" "hasLocalAddress t1"
      "ping fam os junk pid (targetIp t1) t1 seq w1 = Some (False, seq2, w2)"
      "recreated fam os iface t1 w2 = (t3, w3)"
      "if 10 \<le> failStreak t3 then checkGateway fam os junk iface pid t3 seq2 w3 = Some (t', seq', w')
       else t' = t3 \<and> seq' = seq2 \<and> w' = w3"
proof -
  obtain t1 w1 where m: "maybeRecheckLocalAddress os iface t (fam_af fam) w = (t1, w1)" by fastforce
  show thesis
  proof (cases "configured t1 \<and> hasLocalAddress t1")
    case False
    with assms m idle show thesis by (auto simp: tickProto_def)
  next
    case True
    with assms m obtain ok seq2 w2 where p: "ping fam os junk pid (targetIp t1) t1 seq w1 = Some (ok, seq2, w2)"
      by (auto simp: tickProto_def)
    show thesis
    proof (cases ok)
      case True
      with assms m p \<open>configured t1 \<and> hasLocalAddress t1\<close> reply [of t1 w1] show thesis
        by (simp add: tickProto_def)
    next
      case False
      obtain t3 w3 where r: "recreated fam os iface t1 w2 = (t3, w3)" by fastforce
      then have "(if 10 \<le> failStreak t3 then checkGateway fam os junk iface pid t3 seq2 w3 else Some (t3, seq2, w3)) =
          Some (t', seq', w')"
        using assms m p False \<open>configured t1 \<and> hasLocalAddress t1\<close>
        by (simp add: tickProto_def recreated_def Let_def)
      then have "if 10 \<le> failStreak t3 then checkGateway fam os junk iface pid t3 seq2 w3 = Some (t', seq', w')
          else t' = t3 \<and> seq' = seq2 \<and> w' = w3"
        by (auto split: if_splits)
      with m p False r \<open>configured t1 \<and> hasLocalAddress t1\<close> show thesis by (intro lost) auto
    qed
  qed
qed

lemma recreated_frame:
  "recreated fam os iface t w = (t', w') \<Longrightarrow> t' = t\<lparr>failStreak := failStreak t + 1, sock := sock t'\<rparr>"
  using openSocket_frame [of fam os iface "t\<lparr>failStreak := failStreak t + 1\<rparr>" w t' w']
  by (auto simp: recreated_def split: if_splits)

subsection \<open>The invariant\<close>

definition track_inv :: "proto_track \<Rightarrow> bool" where
  "track_inv t \<longleftrightarrow>
     0 \<le> failStreak t \<and> 0 \<le> recheckTicksLeft t \<and> recheckTicksLeft t \<le> 10 \<and>
     (hasLocalAddress t \<longrightarrow> configured t) \<and>
     (failStreak t \<noteq> 0 \<longrightarrow> hasLocalAddress t) \<and>
     (gatewayReachable t \<longrightarrow>
        10 \<le> failStreak t \<and> gatewayMode t \<noteq> Disabled \<and> gatewayResolved t \<and> gatewayIp t \<noteq> [])"

text \<open>What no tick changes, and what it changes in one direction only.\<close>

definition settings_kept :: "proto_track \<Rightarrow> proto_track \<Rightarrow> bool" where
  "settings_kept t t' \<longleftrightarrow>
     configured t' = configured t \<and> targetIp t' = targetIp t \<and> gatewayMode t' = gatewayMode t \<and>
     (gatewayResolved t \<longrightarrow> gatewayResolved t' \<and> gatewayIp t' = gatewayIp t) \<and>
     (hasLocalAddress t \<longrightarrow> hasLocalAddress t')"

lemma settings_kept_refl [simp]: "settings_kept t t"
  by (simp add: settings_kept_def)

lemma settings_kept_trans: "settings_kept t t' \<Longrightarrow> settings_kept t' t'' \<Longrightarrow> settings_kept t t''"
  by (auto simp: settings_kept_def)

lemma recheck_inv:
  assumes "maybeRecheckLocalAddress os iface t family w = (t', w')"
  shows "track_inv t \<Longrightarrow> track_inv t'" and "settings_kept t t'"
proof -
  note m = maybeRecheck_frame [OF assms]
  obtain b k where t': "t' = t\<lparr>hasLocalAddress := b, recheckTicksLeft := k\<rparr>" using m(1) by metis
  show "track_inv t \<Longrightarrow> track_inv t'" using m(2,3,4) by (auto simp: track_inv_def t')
  show "settings_kept t t'" using m(2) by (auto simp: settings_kept_def t')
qed

lemma lost_inv:
  assumes "recreated fam os iface t w = (t3, w3)"
    and "if 10 \<le> failStreak t3 then checkGateway fam os junk iface pid t3 seq w3 = Some (t', seq', w')
      else t' = t3 \<and> seq' = seq2 \<and> w' = w3"
  shows "track_inv t \<Longrightarrow> hasLocalAddress t \<Longrightarrow> track_inv t'" and "settings_kept t t'"
    and "failStreak t' = failStreak t + 1" and "hasLocalAddress t' = hasLocalAddress t"
proof -
  obtain fd where t3: "t3 = t\<lparr>failStreak := failStreak t + 1, sock := fd\<rparr>"
    using recreated_frame [OF assms(1)] by metis
  have c: "10 \<le> failStreak t3 \<Longrightarrow> gateway_checked t3 t'" and n: "\<not> 10 \<le> failStreak t3 \<Longrightarrow> t' = t3"
    using assms(2) checkGateway_checked [of fam os junk iface pid t3 seq w3 t' seq' w'] by (auto split: if_splits)
  have all: "(track_inv t \<longrightarrow> hasLocalAddress t \<longrightarrow> track_inv t') \<and> settings_kept t t' \<and>
      failStreak t' = failStreak t + 1 \<and> hasLocalAddress t' = hasLocalAddress t"
  proof (cases "10 \<le> failStreak t3")
    case True
    from c [OF True] obtain ip rs re where t': "t' = t3\<lparr>gatewayIp := ip, gatewayResolved := rs, gatewayReachable := re\<rparr>"
      unfolding gateway_checked_def by metis
    with c [OF True] True show ?thesis
      by (auto simp: gateway_checked_def track_inv_def settings_kept_def t3)
  next
    case False
    with n show ?thesis by (auto simp: track_inv_def settings_kept_def t3)
  qed
  from all show "track_inv t \<Longrightarrow> hasLocalAddress t \<Longrightarrow> track_inv t'" and "settings_kept t t'"
    and "failStreak t' = failStreak t + 1" and "hasLocalAddress t' = hasLocalAddress t" by auto
qed

lemma tick_inv:
  assumes "tickProto fam os junk iface pid (t, seq, w) = Some (t', seq', w')"
  shows "track_inv t \<Longrightarrow> track_inv t'" and "settings_kept t t'"
proof -
  from assms have "(track_inv t \<longrightarrow> track_inv t') \<and> settings_kept t t'"
  proof (cases rule: tickProto_cases)
    case idle
    with recheck_inv [OF idle(1)] show ?thesis by simp
  next
    case (reply t1 w1)
    with recheck_inv [OF reply(1)] show ?thesis by (auto simp: track_inv_def settings_kept_def)
  next
    case (lost t1 w1 seq2 w2 t3 w3)
    note l = lost_inv [OF lost(5,6)]
    show ?thesis
      using recheck_inv [OF lost(1)] l(1,2) lost(3) settings_kept_trans by blast
  qed
  then show "track_inv t \<Longrightarrow> track_inv t'" and "settings_kept t t'" by blast+
qed

text \<open>
  The tracks the constructor makes, and what any number of ticks makes of them; between ticks
  the world moves on and the socket may be opened.
\<close>

definition initial_track :: "proto_track \<Rightarrow> bool" where
  "initial_track t \<longleftrightarrow> failStreak t = 0 \<and> \<not> hasLocalAddress t \<and> recheckTicksLeft t = 0 \<and> \<not> gatewayReachable t"

inductive track_reachable ::
  "family \<Rightarrow> 'w os \<Rightarrow> ('w \<Rightarrow> buf) \<Rightarrow> string \<Rightarrow> u16 \<Rightarrow> proto_track \<Rightarrow> proto_track \<Rightarrow> bool"
  for fam os junk iface pid t0 where
  initial: "initial_track t0 \<Longrightarrow> track_reachable fam os junk iface pid t0 t0"
| tick: "track_reachable fam os junk iface pid t0 t \<Longrightarrow>
    tickProto fam os junk iface pid (t, seq, w) = Some (t', seq', w') \<Longrightarrow>
    track_reachable fam os junk iface pid t0 t'"

lemma initial_track_inv: "initial_track t \<Longrightarrow> track_inv t"
  by (simp add: initial_track_def track_inv_def)

lemma track_reachable_inv:
  "track_reachable fam os junk iface pid t0 t \<Longrightarrow> track_inv t \<and> settings_kept t0 t"
proof (induction rule: track_reachable.induct)
  case (tick t seq w t' seq' w')
  with tick_inv [OF tick.hyps(2)] settings_kept_trans show ?case by blast
qed (simp add: initial_track_inv)

lemma severity_facts:
  assumes "track_inv t"
  shows "severityOf t = Blue \<longleftrightarrow> gatewayReachable t" and "stateOf t = Healthy \<Longrightarrow> severityOf t = Yellow"
    and "stateOf t = NoLocalAddress \<Longrightarrow> severityOf t = Yellow" and "severityOf t = Blue \<Longrightarrow> stateOf t = Failing"
    and "severityOf t \<noteq> Green"
  using assms by (auto simp: track_inv_def severityOf_def stateOf_def split: if_splits)

subsection \<open>Consecutive losses\<close>

text \<open>
  \<open>ticked s oks s'\<close>: from \<open>s\<close>, ticks of an addressed protocol with the outcomes \<open>oks\<close> of their
  target pings lead to \<open>s'\<close>; the world may move between ticks.
\<close>

inductive ticked ::
  "family \<Rightarrow> 'w os \<Rightarrow> ('w \<Rightarrow> buf) \<Rightarrow> string \<Rightarrow> u16 \<Rightarrow> proto_track \<Rightarrow> bool list \<Rightarrow> proto_track \<Rightarrow> bool"
  for fam os junk iface pid t0 where
  none: "ticked fam os junk iface pid t0 [] t0"
| one: "ticked fam os junk iface pid t0 oks t \<Longrightarrow>
    ping fam os junk pid (targetIp t) t seq w = Some (ok, seq1, w1) \<Longrightarrow>
    tickProto fam os junk iface pid (t, seq, w) = Some (t', seq', w') \<Longrightarrow>
    ticked fam os junk iface pid t0 (oks @ [ok]) t'"

definition losses :: "bool list \<Rightarrow> nat" where
  "losses oks = length (takeWhile Not (rev oks))"

lemma losses_simps [simp]: "losses [] = 0" "losses (oks @ [ok]) = (if ok then 0 else Suc (losses oks))"
  by (simp_all add: losses_def)

lemma active_tick:
  assumes "hasLocalAddress t" and "configured t"
    and "ping fam os junk pid (targetIp t) t seq w = Some (ok, seq1, w1)"
    and "tickProto fam os junk iface pid (t, seq, w) = Some (t', seq', w')"
  shows "failStreak t' = (if ok then 0 else failStreak t + 1) \<and> hasLocalAddress t' \<and> configured t'"
  using assms(4)
proof (cases rule: tickProto_cases)
  case idle
  with maybeRecheck_frame(2) [OF idle(1) assms(1)] assms show ?thesis by simp
next
  case (reply t1 w1')
  with maybeRecheck_frame(2) [OF reply(1) assms(1)] assms show ?thesis by simp
next
  case (lost t1 w1' seq2 w2 t3 w3)
  with maybeRecheck_frame(2) [OF lost(1) assms(1)] assms(3) have "t1 = t" and "\<not> ok" by auto
  with lost_inv [OF lost(5,6)] assms(1,2) show ?thesis by (simp add: settings_kept_def)
qed

lemma ticked_losses:
  "ticked fam os junk iface pid t0 oks t \<Longrightarrow> hasLocalAddress t0 \<Longrightarrow> configured t0 \<Longrightarrow> failStreak t0 = 0 \<Longrightarrow>
   failStreak t = int (losses oks) \<and> hasLocalAddress t \<and> configured t"
proof (induction rule: ticked.induct)
  case (one oks t seq w ok seq1 w1 t' seq' w')
  with active_tick [OF _ _ one.hyps(2,3)] show ?case by auto
qed simp

subsection \<open>A platform to compute with\<close>

text \<open>
  The world is what the next receives give, \<open>None\<close> standing for a timeout; every send succeeds and
  \<^verbatim>\<open>wlan0\<close> has an IPv4 address. The identifier is 7.
\<close>

definition lab_os :: "bytes option list os" where
  "lab_os = dns_os\<lparr>
     sys_socket := (\<lambda>d t p w. (5, w)),
     sys_sendto := (\<lambda>fd bs a w. (int (length bs), w)),
     sys_recv := (\<lambda>fd dw q. case q of [] \<Rightarrow> (None, []) | x # q \<Rightarrow> (x, q)),
     sys_getifaddrs := (\<lambda>w. (Some [\<lparr>ifa_name = ''wlan0'', ifa_addr = Some (AF_INET, [10, 0, 0, 1])\<rparr>], w)),
     sys_getpid := (\<lambda>w. 7)\<rparr>"

definition lab_reply :: bytes where
  "lab_reply = (0x45 # replicate 19 0) @ [0, 0] @ le16 0 @ le16 7 @ le16 0"

definition lab_track :: proto_track where
  "lab_track = new_track\<lparr>configured := True, targetIp := ''4tttt'', sock := 5, gatewayMode := Fixed,
     gatewayIp := ''4gggg'', gatewayResolved := True\<rparr>"

lemma lab_os_simps [simp]:
  "sys_socket lab_os d t p w = (5, w)" "sys_sendto lab_os fd bs a w = (int (length bs), w)"
  "sys_recv lab_os fd dw [] = (None, [])" "sys_recv lab_os fd dw (x # q) = (x, q)"
  "sys_getifaddrs lab_os w = (Some [\<lparr>ifa_name = ''wlan0'', ifa_addr = Some (AF_INET, [10, 0, 0, 1])\<rparr>], w)"
  "sys_inet_pton lab_os AF_INET (CHR ''4'' # s) = Some (bytes_of s)"
  "sys_getpid lab_os w = 7" "sys_close lab_os fd w = w" "sys_bindtodevice lab_os fd i w = (-1, w)" "sys_rcvtimeo lab_os fd tv w = (-1, w)"
  by (simp_all add: lab_os_def dns_os_def idle_os_def)

lemma lab_reply_accepted: "is_reply4 7 lab_reply" and lab_reply_nonempty: "lab_reply \<noteq> []"
  by (simp_all add: is_reply4_def reply_at_def lab_reply_def le16_def nth_append)

lemma lab_ping:
  assumes "sock t = 5"
  shows "ping inet4 lab_os junk 7 (CHR ''4'' # d) t seq (None # q) = Some (False, seq + 1, q)"
    and "ping inet4 lab_os junk 7 (CHR ''4'' # d) t seq (Some lab_reply # q) = Some (True, seq + 1, q)"
proof -
  have "recv_loop isMatchingReply4 lab_os 5 7 m (None # q) = Some (False, q)" for m
    unfolding recv_loop4_iff by (rule hears.silent [where x = None]) simp_all
  then show "ping inet4 lab_os junk 7 (CHR ''4'' # d) t seq (None # q) = Some (False, seq + 1, q)"
    using assms by (simp add: ping_def sendPing_def inet4_def recvReply_def layout_simps)
  have "recv_loop isMatchingReply4 lab_os 5 7 m (Some lab_reply # q) = Some (True, q)" for m
    unfolding recv_loop4_iff by (rule hears.reply [where bs = lab_reply]) (simp_all add: lab_reply_accepted lab_reply_nonempty)
  then show "ping inet4 lab_os junk 7 (CHR ''4'' # d) t seq (Some lab_reply # q) = Some (True, seq + 1, q)"
    using assms by (simp add: ping_def sendPing_def inet4_def recvReply_def layout_simps)
qed

definition lab_after :: "int \<Rightarrow> bool \<Rightarrow> proto_track" where
  "lab_after n r = lab_track\<lparr>hasLocalAddress := True, recheckTicksLeft := 10, failStreak := n, gatewayReachable := r\<rparr>"

lemma lab_tick_lost:
  "n + 1 < 10 \<Longrightarrow> n \<ge> 0 \<Longrightarrow>
   tickProto inet4 lab_os junk ''wlan0'' 7 (lab_after n False, seq, [None]) = Some (lab_after (n + 1) False, seq + 1, [])"
  by (simp add: tickProto_def maybeRecheckLocalAddress_def lab_after_def lab_track_def new_track_def lab_ping Let_def)

lemma lab_tick_first:
  "tickProto inet4 lab_os junk ''wlan0'' 7 (lab_track, seq, [None]) = Some (lab_after 1 False, seq + 1, [])"
  by (simp add: tickProto_def maybeRecheckLocalAddress_def lab_after_def lab_track_def new_track_def lab_ping
      Let_def ifaceHasAddress_def matchesIfaceAddress_def inet4_def [THEN arg_cong [of _ _ fam_af]])

lemma lab_tick_blue:
  "tickProto inet4 lab_os junk ''wlan0'' 7 (lab_after 9 False, seq, [None, Some lab_reply]) =
   Some (lab_after 10 True, seq + 2, [])"
  by (simp add: tickProto_def maybeRecheckLocalAddress_def lab_after_def lab_track_def new_track_def lab_ping
      Let_def openSocket_def checkGateway_def lookupGateway_def add.assoc)

lemma lab_reachable:
  "n < 9 \<Longrightarrow> track_reachable inet4 lab_os junk ''wlan0'' 7 lab_track (lab_after (int n + 1) False)"
proof (induction n)
  case 0
  have "initial_track lab_track" by (simp add: initial_track_def lab_track_def new_track_def)
  from track_reachable.tick [OF track_reachable.initial [OF this] lab_tick_first] show ?case by simp
next
  case (Suc n)
  then have "track_reachable inet4 lab_os junk ''wlan0'' 7 lab_track (lab_after (int n + 1) False)" by simp
  from track_reachable.tick [OF this lab_tick_lost] Suc.prems show ?case by (simp add: add.commute)
qed

lemma lab_blue: "track_reachable inet4 lab_os junk ''wlan0'' 7 lab_track (lab_after 10 True)"
  using track_reachable.tick [OF lab_reachable [of 8] _] lab_tick_blue by fastforce

subsection \<open>Properties\<close>

text \<open>In every state a protocol can reach, blue is reported only while the target is failing,
  after at least ten consecutive losses, with the gateway check enabled and an address to check;
  a healthy or inactive protocol has no losses and no gateway reported as reachable; and with
  the check disabled the severity is red, never blue, from the tenth loss on.\<close>

lemma severity_invariant:
  assumes "track_reachable fam os junk iface pid t0 t"
  shows "(severityOf t = Blue \<longrightarrow> stateOf t = Failing \<and> 10 \<le> failStreak t \<and> gatewayMode t0 \<noteq> Disabled \<and> gatewayIp t \<noteq> []) \<and>
    (stateOf t \<noteq> Failing \<longrightarrow> failStreak t = 0 \<and> \<not> gatewayReachable t) \<and>
    (gatewayMode t0 = Disabled \<longrightarrow> severityOf t = (if failStreak t < 10 then Yellow else Red))"
  using track_reachable_inv [OF assms]
  by (auto simp: track_inv_def settings_kept_def severityOf_def stateOf_def split: if_splits)

lemma severity_invariant_witness:
  "severityOf (lab_after 10 True) = Blue \<and> stateOf (lab_after 10 True) = Failing \<and> gatewayIp (lab_after 10 True) \<noteq> []"
  using severity_invariant [OF lab_blue] by (simp add: severityOf_def lab_after_def)

text \<open>From a healthy start, after any sequence of ticks whose target pings have the given
  outcomes, the streak is the number of losses since the last success: the protocol is healthy
  exactly when the last ping succeeded, yellow for one to nine losses in a row, and from the
  tenth on blue or red, blue exactly when the gateway is recorded as reachable.\<close>

lemma streak_counts_consecutive_losses:
  assumes "ticked fam os junk iface pid t0 oks t" and "hasLocalAddress t0" and "configured t0"
    and "failStreak t0 = 0"
  shows "failStreak t = int (losses oks) \<and>
    stateOf t = (if losses oks = 0 then Healthy else Failing) \<and>
    severityOf t = (if losses oks < 10 then Yellow else if gatewayReachable t then Blue else Red)"
  using ticked_losses [OF assms] by (simp add: stateOf_def severityOf_def)

lemma streak_counts_consecutive_losses_witness:
  "failStreak (lab_after 1 False) = int (losses [True, False])"
proof -
  let ?t0 = "lab_after 0 False"
  have p0: "ping inet4 lab_os (\<lambda>_ _. 0) 7 (targetIp ?t0) ?t0 0 [Some lab_reply] = Some (True, 0 + 1, [])"
    by (simp add: lab_after_def lab_track_def new_track_def lab_ping)
  have t0: "tickProto inet4 lab_os (\<lambda>_ _. 0) ''wlan0'' 7 (?t0, 0, [Some lab_reply]) = Some (?t0, 0 + 1, [])"
    by (simp add: tickProto_def maybeRecheckLocalAddress_def lab_after_def lab_track_def new_track_def lab_ping Let_def)
  have p1: "ping inet4 lab_os (\<lambda>_ _. 0) 7 (targetIp ?t0) ?t0 1 [None] = Some (False, 1 + 1, [])"
    by (simp add: lab_after_def lab_track_def new_track_def lab_ping)
  have "ticked inet4 lab_os (\<lambda>_ _. 0) ''wlan0'' 7 ?t0 ([] @ [True]) ?t0"
    by (rule ticked.one [OF ticked.none p0 t0])
  from ticked.one [OF this p1 lab_tick_lost]
  have "ticked inet4 lab_os (\<lambda>_ _. 0) ''wlan0'' 7 ?t0 [True, False] (lab_after 1 False)" by simp
  from streak_counts_consecutive_losses [OF this] show ?thesis
    by (simp add: lab_after_def lab_track_def new_track_def)
qed

text \<open>Ticks never change what the monitor was started with: the target, whether the protocol is
  configured and the mode of the gateway check stay as they are; a gateway address that is
  fixed, or has been looked up once, is never looked up again; and a protocol once seen with
  an address is never taken for inactive again.\<close>

lemma ticks_keep_settings:
  assumes "track_reachable fam os junk iface pid t0 t"
    and "tickProto fam os junk iface pid (t, seq, w) = Some (t', seq', w')"
  shows "configured t' = configured t0 \<and> targetIp t' = targetIp t0 \<and> gatewayMode t' = gatewayMode t0 \<and>
    (gatewayResolved t0 \<longrightarrow> gatewayIp t' = gatewayIp t0) \<and>
    (gatewayResolved t \<longrightarrow> gatewayResolved t' \<and> gatewayIp t' = gatewayIp t) \<and>
    (hasLocalAddress t \<longrightarrow> hasLocalAddress t')"
  using track_reachable_inv [OF assms(1)] tick_inv(2) [OF assms(2)] by (auto simp: settings_kept_def)

lemma ticks_keep_settings_witness:
  "gatewayIp (lab_after 10 True) = ''4gggg'' \<and> targetIp (lab_after 10 True) = ''4tttt''"
proof -
  have "track_reachable inet4 lab_os (\<lambda>_ _. 0) ''wlan0'' 7 lab_track (lab_after 9 False)"
    using lab_reachable [of 8] by simp
  from ticks_keep_settings [OF this lab_tick_blue] show ?thesis by (simp add: lab_track_def new_track_def)
qed

text \<open>\<open>n\<close> ticks in a row.\<close>

fun ticks ::
  "family \<Rightarrow> 'w os \<Rightarrow> ('w \<Rightarrow> buf) \<Rightarrow> string \<Rightarrow> u16 \<Rightarrow> nat \<Rightarrow> proto_track \<times> u16 \<times> 'w
   \<Rightarrow> (proto_track \<times> u16 \<times> 'w) option" where
  "ticks fam os junk iface pid 0 s = Some s"
| "ticks fam os junk iface pid (Suc n) s = ticks fam os junk iface pid n s \<bind> tickProto fam os junk iface pid"

lemma ticks_waiting:
  assumes "configured t" and "\<not> hasLocalAddress t" and "recheckTicksLeft t = 10"
  shows "n \<le> 10 \<Longrightarrow> ticks fam os junk iface pid n (t, seq, w) = Some (t\<lparr>recheckTicksLeft := 10 - int n\<rparr>, seq, w)"
proof (induction n)
  case 0
  have "t\<lparr>recheckTicksLeft := 10\<rparr> = t" using assms(3) by (cases t) simp
  then show ?case by simp
next
  case (Suc n)
  with assms show ?case by (simp add: tickProto_def maybeRecheckLocalAddress_def del: bind_Some_iff)
qed

text \<open>
  An outage: whatever is sent, no reply with the monitor's identifier comes, and each wait for one ends
  in silence after any number of other datagrams; lookups of the route end, with any result.
\<close>

definition outage :: "family \<Rightarrow> 'w os \<Rightarrow> string \<Rightarrow> u16 \<Rightarrow> bool" where
  "outage fam os iface pid \<longleftrightarrow>
     (\<forall>fd w. \<exists>w'. hears (if fam_af fam = AF_INET then is_reply4 pid else is_reply6 pid) os fd w False w') \<and>
     (\<forall>m w. \<exists>r. resolveGateway os m iface (fam_af fam) w = Some r)"

lemma outage_ping:
  assumes "outage fam os iface pid" and "fam \<in> {inet4, inet6}"
  shows "\<exists>seq' w'. ping fam os junk pid d t seq w = Some (False, seq', w')"
proof -
  have "\<exists>w'. recv_loop (fam_matching fam) os fd pid m w = Some (False, w')" for fd m w
    using assms by (auto simp: outage_def inet4_def inet6_def recv_loop4_iff recv_loop6_iff)
  then have r: "\<exists>w'. recvReply fam os junk pid t w = Some (False, w')" for w
    by (cases "sock t < 0") (auto simp: recvReply_def)
  obtain sent seq1 w1 where "sendPing fam os pid d t seq w = (sent, seq1, w1)" by (rule prod_cases3)
  with r [of w1] show ?thesis by (cases sent) (auto simp: ping_def)
qed

lemma outage_gateway:
  assumes "outage fam os iface pid" and "fam \<in> {inet4, inet6}"
  shows "\<exists>t' seq' w'. checkGateway fam os junk iface pid t seq w = Some (t', seq', w') \<and> \<not> gatewayReachable t'"
proof -
  from assms(1) obtain y where "resolveGateway os (junk w) iface (fam_af fam) w = Some y" unfolding outage_def by blast
  then have "\<exists>x. lookupGateway fam os junk iface t w = Some x" by (cases y) (simp add: lookupGateway_def Let_def)
  then obtain t1 w1 where "lookupGateway fam os junk iface t w = Some (t1, w1)" by fastforce
  moreover obtain seq2 w2 where "ping fam os junk pid (gatewayIp t1) t1 seq w1 = Some (False, seq2, w2)"
    using outage_ping [OF assms] by blast
  ultimately show ?thesis by (auto simp: checkGateway_def)
qed

lemma outage_tick:
  assumes o: "outage fam os iface pid" "fam \<in> {inet4, inet6}"
    and t: "track_inv t" "configured t" "hasLocalAddress t"
  obtains t' seq' w' where "tickProto fam os junk iface pid (t, seq, w) = Some (t', seq', w')"
    and "track_inv t'" and "configured t'" and "hasLocalAddress t'" and "failStreak t' = failStreak t + 1"
    and "\<not> gatewayReachable t'"
proof -
  obtain seq2 w2 where p: "ping fam os junk pid (targetIp t) t seq w = Some (False, seq2, w2)"
    using outage_ping [OF o] by blast
  obtain t3 w3 where r: "recreated fam os iface t w2 = (t3, w3)" by (rule prod.exhaust)
  then obtain fd where t3: "t3 = t\<lparr>failStreak := failStreak t + 1, sock := fd\<rparr>"
    using recreated_frame [OF r] by metis
  obtain t4 seq4 w4 where c: "checkGateway fam os junk iface pid t3 seq2 w3 = Some (t4, seq4, w4)" "\<not> gatewayReachable t4"
    using outage_gateway [OF o] by blast
  have tick: "tickProto fam os junk iface pid (t, seq, w) =
      (if 10 \<le> failStreak t3 then Some (t4, seq4, w4) else Some (t3, seq2, w3))"
    using p r c(1) t(2,3)
    by (simp add: tickProto_def maybeRecheckLocalAddress_def recreated_def Let_def split: if_splits)
  have n: "10 \<le> failStreak t3 \<or> \<not> gatewayReachable t3" using t(1) by (auto simp: track_inv_def t3)
  obtain t' seq' w' where s: "tickProto fam os junk iface pid (t, seq, w) = Some (t', seq', w')"
    and g: "\<not> gatewayReachable t'" using tick c(2) n by (auto split: if_splits)
  from active_tick [OF t(3,2) p s] tick_inv(1) [OF s t(1)] show thesis by (intro that [OF s]) (simp_all add: g)
qed

lemma outage_ticks:
  assumes o: "outage fam os iface pid" "fam \<in> {inet4, inet6}"
    and t: "track_inv t" "configured t" "hasLocalAddress t"
  shows "\<exists>t' seq' w'. ticks fam os junk iface pid n (t, seq, w) = Some (t', seq', w') \<and> track_inv t' \<and> configured t' \<and>
    hasLocalAddress t' \<and> failStreak t' = failStreak t + int n \<and> (0 < n \<longrightarrow> \<not> gatewayReachable t')"
proof (induction n)
  case (Suc n)
  then obtain t1 seq1 w1 where s: "ticks fam os junk iface pid n (t, seq, w) = Some (t1, seq1, w1)"
    "track_inv t1" "configured t1" "hasLocalAddress t1" "failStreak t1 = failStreak t + int n" by blast
  from outage_tick [OF o s(2-4), of junk seq1 w1] obtain t2 seq2 w2 where
    "tickProto fam os junk iface pid (t1, seq1, w1) = Some (t2, seq2, w2)" "track_inv t2" "configured t2"
    "hasLocalAddress t2" "failStreak t2 = failStreak t1 + 1" "\<not> gatewayReachable t2" .
  with s show ?case by simp
qed (use t in simp)

text \<open>C20: An outage is reported, and its end: while no reply comes (the waits end in silence, and the lookups of the
  route end), every tick of an addressed protocol comes back and counts one loss; the protocol is
  yellow until it has lost nine in a row and red from the tenth on; and the first tick that hears the
  target again, on whatever the platform has become, makes it healthy. This holds for both protocols, from
  every state the invariant allows.\<close>

theorem outage_is_reported:
  assumes "outage fam os iface pid" and "fam \<in> {inet4, inet6}"
    and "track_inv t" and "configured t" and "hasLocalAddress t" and "0 < n"
  shows "\<exists>t' seq' w'. ticks fam os junk iface pid n (t, seq, w) = Some (t', seq', w') \<and>
    failStreak t' = failStreak t + int n \<and> stateOf t' = Failing \<and>
    severityOf t' = (if failStreak t + int n < 10 then Yellow else Red) \<and>
    (\<forall>s2 w2 s3 w3. ping fam os2 junk2 pid (targetIp t') t' s2 w2 = Some (True, s3, w3) \<longrightarrow>
      (\<exists>t''. tickProto fam os2 junk2 iface pid (t', s2, w2) = Some (t'', s3, w3) \<and> stateOf t'' = Healthy \<and>
        \<not> gatewayReachable t''))"
proof -
  from outage_ticks [OF assms(1-5), of junk n seq w] obtain t' seq' w' where
    s: "ticks fam os junk iface pid n (t, seq, w) = Some (t', seq', w')" and c: "configured t'" "hasLocalAddress t'"
    and f: "failStreak t' = failStreak t + int n" and g: "\<not> gatewayReachable t'" using assms(6) by blast
  have "0 \<le> failStreak t" using assms(3) by (simp add: track_inv_def)
  with f assms(6) have "stateOf t' = Failing" "severityOf t' = (if failStreak t + int n < 10 then Yellow else Red)"
    using c g by (simp_all add: stateOf_def severityOf_def)
  moreover have "\<exists>t''. tickProto fam os2 junk2 iface pid (t', s2, w2) = Some (t'', s3, w3) \<and> stateOf t'' = Healthy \<and>
      \<not> gatewayReachable t''" if "ping fam os2 junk2 pid (targetIp t') t' s2 w2 = Some (True, s3, w3)" for s2 w2 s3 w3
    using that c by (simp add: tickProto_def maybeRecheckLocalAddress_def stateOf_def)
  ultimately show ?thesis using s f by blast
qed

theorem outage_is_reported_witness:
  "\<exists>t' seq' w'. ticks inet6 (idle_os :: unit os) (\<lambda>_ _. 0) ''wlan0'' 7 4 (lab_after 8 False, 0, ()) = Some (t', seq', w') \<and>
     severityOf t' = Red"
proof -
  have o: "outage inet6 (idle_os :: unit os) ''wlan0'' 7"
    unfolding outage_def
  proof (intro conjI allI)
    fix fd w show "\<exists>w'. hears (if fam_af inet6 = AF_INET then is_reply4 7 else is_reply6 7) (idle_os :: unit os) fd w False w'"
      by (intro exI hears.silent [where x = None]) simp_all
    fix m w show "\<exists>r. resolveGateway (idle_os :: unit os) m ''wlan0'' (fam_af inet6) w = Some r"
      by (simp add: resolveGateway_def new_gateway_resolver_def gr_resolve_def to_i32_def)
  qed
  have i: "track_inv (lab_after 8 False)" "configured (lab_after 8 False)" "hasLocalAddress (lab_after 8 False)"
    by (simp_all add: lab_after_def lab_track_def new_track_def track_inv_def)
  show ?thesis
    using outage_is_reported [OF o _ i, of 4 "\<lambda>_ _. 0" 0 "()" "idle_os :: unit os" "\<lambda>_ _. 0"]
    by (fastforce simp: lab_after_def)
qed

text \<open>C34: A configured protocol without an address sends nothing: after a lookup that found no
  address, the next ten ticks make no system call at all and leave everything but the countdown
  as it is, and the eleventh makes exactly one, the next lookup; if that finds none either, the
  protocol is back where it was.\<close>

theorem unaddressed_protocol_is_quiet:
  assumes "configured t" and "\<not> hasLocalAddress t" and "recheckTicksLeft t = 10" and "n \<le> 10"
    and "ifaceHasAddress os iface (fam_af fam) w = (False, w')"
  shows "ticks fam os junk iface pid n (t, seq, w) = Some (t\<lparr>recheckTicksLeft := 10 - int n\<rparr>, seq, w) \<and>
    ticks fam os junk iface pid 11 (t, seq, w) = Some (t, seq, w')"
proof -
  have t: "t\<lparr>hasLocalAddress := False, recheckTicksLeft := 10\<rparr> = t" using assms(2,3) by (cases t) simp
  have eleven: "11 = Suc 10" by simp
  have "tickProto fam os junk iface pid (t\<lparr>recheckTicksLeft := 0\<rparr>, seq, w) = Some (t, seq, w')"
    using assms(1,2,5) t by (simp add: tickProto_def maybeRecheckLocalAddress_def)
  then have "ticks fam os junk iface pid 11 (t, seq, w) = Some (t, seq, w')"
    using ticks_waiting [OF assms(1-3), of 10 fam os junk iface pid seq w]
    by (simp only: eleven ticks.simps) simp
  then show ?thesis using ticks_waiting [OF assms(1-4)] by simp
qed

theorem unaddressed_protocol_is_quiet_witness:
  "ticks inet6 (idle_os :: unit os) (\<lambda>_ _. 0) ''wlan0'' 7 11 (lab_track\<lparr>recheckTicksLeft := 10\<rparr>, 3, ()) =
   Some (lab_track\<lparr>recheckTicksLeft := 10\<rparr>, 3, ())"
  using unaddressed_protocol_is_quiet [of "lab_track\<lparr>recheckTicksLeft := 10\<rparr>" 0 "idle_os :: unit os" "''wlan0''" inet6 "()" "()"]
  by (simp add: lab_track_def new_track_def ifaceHasAddress_def)

text \<open>C33: The raw socket is opened anew at the tenth loss in a row and at every tenth one after it, the
  old one being closed first, and at no other tick: below that a loss is only counted.\<close>

theorem socket_recreated_every_tenth_loss:
  assumes "configured t" and "hasLocalAddress t"
    and "ping fam os junk pid (targetIp t) t seq w = Some (ok, seq1, w1)"
    and "tickProto fam os junk iface pid (t, seq, w) = Some (t', seq', w')"
  shows "sock t' =
    (if \<not> ok \<and> (failStreak t + 1) mod 10 = 0
     then fst (sys_socket os (fam_af fam) SOCK_RAW (fam_ipproto fam)
            (if 0 \<le> sock t then sys_close os (sock t) w1 else w1))
     else sock t) \<and>
    (\<not> ok \<longrightarrow> failStreak t + 1 < 10 \<longrightarrow> (failStreak t + 1) mod 10 \<noteq> 0 \<longrightarrow>
      (t', seq', w') = (t\<lparr>failStreak := failStreak t + 1\<rparr>, seq1, w1))"
  using assms(4)
proof (cases rule: tickProto_cases)
  case idle
  with maybeRecheck_frame(2) [OF idle(1) assms(2)] assms show ?thesis by simp
next
  case (reply t1 w1')
  with maybeRecheck_frame(2) [OF reply(1) assms(2)] assms show ?thesis by simp
next
  case (lost t1 w1' seq2 w2 t3 w3)
  with maybeRecheck_frame(2) [OF lost(1) assms(2)] assms(3)
  have eq: "t1 = t" "\<not> ok" "seq2 = seq1" "w2 = w1" by auto
  have s3: "sock t3 = (if (failStreak t + 1) mod 10 = 0
      then fst (sys_socket os (fam_af fam) SOCK_RAW (fam_ipproto fam)
            (if 0 \<le> sock t then sys_close os (sock t) w1 else w1)) else sock t)"
    using lost(5) unfolding eq by (auto simp: recreated_def openSocket_def Let_def split: prod.splits if_splits)
  have f3: "failStreak t3 = failStreak t + 1"
    using recreated_frame [OF lost(5)] unfolding eq by (metis proto_track.select_convs(4) proto_track.surjective proto_track.update_convs(3,4))
  have "sock t' = sock t3"
  proof (cases "10 \<le> failStreak t3")
    case True
    with lost(6) checkGateway_checked have "gateway_checked t3 t'" by fastforce
    then obtain ip rs re where "t' = t3\<lparr>gatewayIp := ip, gatewayResolved := rs, gatewayReachable := re\<rparr>"
      unfolding gateway_checked_def by metis
    then show ?thesis by simp
  qed (use lost(6) in simp)
  moreover have "(t', seq', w') = (t\<lparr>failStreak := failStreak t + 1\<rparr>, seq1, w1)"
    if "failStreak t + 1 < 10" "(failStreak t + 1) mod 10 \<noteq> 0"
    using lost(5,6) that f3 unfolding eq by (auto simp: recreated_def)
  ultimately show ?thesis using s3 eq(2) by simp
qed

theorem socket_recreated_every_tenth_loss_witness:
  "sock (lab_after 10 True) = 5"
proof -
  have p: "ping inet4 lab_os (\<lambda>_ _. 0) 7 (targetIp (lab_after 9 False)) (lab_after 9 False) 0 [None, Some lab_reply]
      = Some (False, 0 + 1, [Some lab_reply])"
    by (simp add: lab_after_def lab_track_def new_track_def lab_ping)
  show ?thesis
    using socket_recreated_every_tenth_loss [OF _ _ p lab_tick_blue]
    by (simp add: lab_after_def lab_track_def new_track_def)
qed

end
