(* ===== verification/Ping_Status.thy ===== *)
theory Ping_Status
  imports Ping_Track
begin

section \<open>Colour, glyph and status text (ping_monitor_status_text.cpp)\<close>

text \<open>
  What the tray shows, as functions of the two protocols' states. A \<open>QString\<close> is a string here;
  the texts are ASCII but for the label, which is only copied.
\<close>

definition glyphFor :: "proto_state \<Rightarrow> proto_state \<Rightarrow> severity \<Rightarrow> severity \<Rightarrow> string" where
  "glyphFor v4State v6State v4Severity v6Severity =
     (let glyph = (if v4State = Healthy \<or> v4Severity = Blue then ''4'' else [])
      in if v6State = Healthy \<or> v6Severity = Blue
         then (if glyph \<noteq> [] then glyph @ ''/'' else glyph) @ ''6''
         else glyph)"

definition worstSeverityOf :: "proto_state \<Rightarrow> proto_state \<Rightarrow> severity \<Rightarrow> severity \<Rightarrow> severity" where
  "worstSeverityOf v4State v6State v4Severity v6Severity =
     (let anyHealthy = (v4State = Healthy \<or> v6State = Healthy);
          anyBlue = (v4Severity = Blue \<or> v6Severity = Blue);
          anyYellow = (v4State = Failing \<and> v4Severity = Yellow \<or> v6State = Failing \<and> v6Severity = Yellow)
      in if anyHealthy then Green
         else if anyBlue then Blue
         else if anyYellow then Yellow
         else if v4State = Failing \<or> v6State = Failing then Red
         else Green)"

definition protoStatusText :: "string \<Rightarrow> proto_state \<Rightarrow> proto_track \<Rightarrow> string" where
  "protoStatusText tag state t =
     (if state = Healthy then tag @ '' connected''
      else let text = tag @ '': '' @ show_int (failStreak t) @ '' consecutive losses''
           in if gatewayReachable t then text @ '' (gateway reachable)'' else text)"

fun join :: "string \<Rightarrow> string list \<Rightarrow> string" where
  "join sep [] = []"
| "join sep [x] = x"
| "join sep (x # y # ys) = x @ sep @ join sep (y # ys)"

definition statusTextFor :: "string \<Rightarrow> proto_state \<Rightarrow> proto_state \<Rightarrow> proto_track \<Rightarrow> proto_track \<Rightarrow> string" where
  "statusTextFor label v4State v6State v4 v6 =
     (let parts = (if v4State \<noteq> NoLocalAddress then [protoStatusText ''v4'' v4State v4] else [])
            @ (if v6State \<noteq> NoLocalAddress then [protoStatusText ''v6'' v6State v6] else [])
      in if parts = [] then label @ '': no target resolved''
         else label @ '': '' @ join '', '' parts)"

subsection \<open>As functions of the two tracks\<close>

definition colour_of :: "proto_track \<Rightarrow> proto_track \<Rightarrow> severity" where
  "colour_of v4 v6 = worstSeverityOf (stateOf v4) (stateOf v6) (severityOf v4) (severityOf v6)"

definition glyph_of :: "proto_track \<Rightarrow> proto_track \<Rightarrow> string" where
  "glyph_of v4 v6 = glyphFor (stateOf v4) (stateOf v6) (severityOf v4) (severityOf v6)"

definition status_of :: "string \<Rightarrow> proto_track \<Rightarrow> proto_track \<Rightarrow> string" where
  "status_of label v4 v6 = statusTextFor label (stateOf v4) (stateOf v6) v4 v6"

definition active :: "proto_track \<Rightarrow> bool" where
  "active t \<longleftrightarrow> configured t \<and> hasLocalAddress t"

text \<open>The state and severity of a track that keeps the invariant, in one case distinction.\<close>

lemma track_view:
  assumes "track_inv t"
  obtains
    (inactive) "\<not> active t" "stateOf t = NoLocalAddress" "severityOf t = Yellow" "\<not> gatewayReachable t" "failStreak t = 0"
  | (healthy) "active t" "stateOf t = Healthy" "severityOf t = Yellow" "\<not> gatewayReachable t" "failStreak t = 0"
  | (yellow) "active t" "stateOf t = Failing" "severityOf t = Yellow" "\<not> gatewayReachable t" "failStreak t \<noteq> 0" "failStreak t < 10" "1 \<le> failStreak t"
  | (blue) "active t" "stateOf t = Failing" "severityOf t = Blue" "gatewayReachable t" "failStreak t \<noteq> 0" "10 \<le> failStreak t"
  | (red) "active t" "stateOf t = Failing" "severityOf t = Red" "\<not> gatewayReachable t" "failStreak t \<noteq> 0" "10 \<le> failStreak t"
proof -
  have "failStreak t = 0 \<or> failStreak t \<noteq> 0 \<and> failStreak t < 10 \<and> 1 \<le> failStreak t \<or>
      failStreak t \<noteq> 0 \<and> 10 \<le> failStreak t"
    using assms by (auto simp: track_inv_def)
  then show thesis
    using assms that by (cases "active t"; cases "gatewayReachable t")
      (auto simp: track_inv_def active_def stateOf_def severityOf_def)
qed

lemma active_pair:
  "{t \<in> {v4, v6}. active t} = {} \<longleftrightarrow> \<not> active v4 \<and> \<not> active v6"
  "(\<forall>t \<in> {t \<in> {v4, v6}. active t}. P t) \<longleftrightarrow> (active v4 \<longrightarrow> P v4) \<and> (active v6 \<longrightarrow> P v6)"
  "(\<exists>t \<in> {t \<in> {v4, v6}. active t}. P t) \<longleftrightarrow> active v4 \<and> P v4 \<or> active v6 \<and> P v6"
  by auto

lemma active_filter:
  "(\<forall>t \<in> set (filter active [v4, v6]). P t) \<longleftrightarrow> (active v4 \<longrightarrow> P v4) \<and> (active v6 \<longrightarrow> P v6)"
  "(\<exists>t \<in> set (filter active [v4, v6]). P t) \<longleftrightarrow> active v4 \<and> P v4 \<or> active v6 \<and> P v6"
  by auto

lemma colour_of_commute: "colour_of v6 v4 = colour_of v4 v6"
  by (auto simp: colour_of_def worstSeverityOf_def Let_def)

lemma colour_cases:
  assumes "track_inv v4" and "track_inv v6"
  shows "(colour_of v4 v6 = Green \<longleftrightarrow> \<not> active v4 \<and> \<not> active v6 \<or>
      active v4 \<and> failStreak v4 = 0 \<or> active v6 \<and> failStreak v6 = 0) \<and>
    (colour_of v4 v6 = Blue \<longleftrightarrow>
      ((active v4 \<longrightarrow> failStreak v4 \<noteq> 0) \<and> (active v6 \<longrightarrow> failStreak v6 \<noteq> 0)) \<and>
      (active v4 \<and> gatewayReachable v4 \<or> active v6 \<and> gatewayReachable v6)) \<and>
    (colour_of v4 v6 = Red \<longleftrightarrow> \<not> (\<not> active v4 \<and> \<not> active v6) \<and>
      ((active v4 \<longrightarrow> 10 \<le> failStreak v4 \<and> \<not> gatewayReachable v4) \<and>
       (active v6 \<longrightarrow> 10 \<le> failStreak v6 \<and> \<not> gatewayReachable v6)))"
  unfolding colour_of_def
  by (rule track_view [OF assms(1)]; rule track_view [OF assms(2)]; simp add: worstSeverityOf_def)

lemma show_int_inj: "0 \<le> a \<Longrightarrow> 0 \<le> b \<Longrightarrow> show_int a = show_int b \<Longrightarrow> a = b"
  by (auto simp: show_int_def dest!: show_nat_inj)

subsection \<open>The documented colour\<close>

text \<open>
  The rules of the README, in its order, over the active protocols: green, then yellow for one to nine
  losses, then blue for ten or more with a gateway that responds, and red if none applies. With no
  active protocol nothing has succeeded and only the rule for red, which speaks of every active protocol, applies.
\<close>

definition documented_colour :: "proto_track list \<Rightarrow> severity" where
  "documented_colour actives =
     (if \<exists>t \<in> set actives. failStreak t = 0 then Green
      else if \<exists>t \<in> set actives. 1 \<le> failStreak t \<and> failStreak t \<le> 9 then Yellow
      else if \<exists>t \<in> set actives. 10 \<le> failStreak t \<and> gatewayReachable t then Blue
      else Red)"

subsection \<open>Properties\<close>

text \<open>The icon's colour is decided by the active protocols alone: green when one of them is
  healthy (or none is active), blue when none is healthy but one reaches its gateway, red when
  every active protocol has lost ten pings or more and reaches no gateway, and yellow
  otherwise; neither protocol has precedence over the other.\<close>

lemma colour_policy:
  assumes "track_inv v4" and "track_inv v6" and "A = {t \<in> {v4, v6}. active t}"
  shows "(colour_of v4 v6 = Green \<longleftrightarrow> A = {} \<or> (\<exists>t \<in> A. failStreak t = 0)) \<and>
    (colour_of v4 v6 = Blue \<longleftrightarrow> (\<forall>t \<in> A. failStreak t \<noteq> 0) \<and> (\<exists>t \<in> A. gatewayReachable t)) \<and>
    (colour_of v4 v6 = Red \<longleftrightarrow> A \<noteq> {} \<and> (\<forall>t \<in> A. 10 \<le> failStreak t \<and> \<not> gatewayReachable t)) \<and>
    colour_of v6 v4 = colour_of v4 v6"
  using colour_cases [OF assms(1,2)] colour_of_commute [of v4 v6] unfolding assms(3) active_pair by simp

lemma colour_policy_witness:
  "colour_of (lab_after 10 True) new_track = Blue \<and> colour_of new_track (lab_after 10 True) = Blue"
proof -
  have i: "track_inv (lab_after 10 True)" "track_inv new_track" "active (lab_after 10 True)" "\<not> active new_track"
    by (simp_all add: lab_after_def lab_track_def new_track_def track_inv_def active_def)
  then have a: "{t \<in> {lab_after 10 True, new_track}. active t} = {lab_after 10 True}" by auto
  have "failStreak (lab_after 10 True) = 10" "gatewayReachable (lab_after 10 True)" by (simp_all add: lab_after_def)
  with colour_policy [OF i(1,2) a [symmetric]] show ?thesis by simp
qed

text \<open>The glyph names exactly the protocols that reach their target or their gateway, \<open>4\<close> before \<open>6\<close>
  and a slash between two; it is empty exactly when the icon is yellow or red or no protocol
  is active, so a red icon never claims a working protocol and a blue one always names one.\<close>

lemma glyph_policy:
  assumes "track_inv v4" and "track_inv v6"
  shows "(CHR ''4'' \<in> set (glyph_of v4 v6) \<longleftrightarrow> active v4 \<and> (failStreak v4 = 0 \<or> gatewayReachable v4)) \<and>
    (CHR ''6'' \<in> set (glyph_of v4 v6) \<longleftrightarrow> active v6 \<and> (failStreak v6 = 0 \<or> gatewayReachable v6)) \<and>
    glyph_of v4 v6 \<in> {[], ''4'', ''6'', ''4/6''} \<and>
    (glyph_of v4 v6 = [] \<longleftrightarrow> colour_of v4 v6 \<in> {Yellow, Red} \<or> \<not> active v4 \<and> \<not> active v6)"
  unfolding glyph_of_def colour_of_def
  by (rule track_view [OF assms(1)]; rule track_view [OF assms(2)]; simp add: worstSeverityOf_def glyphFor_def)

lemma glyph_policy_witness: "glyph_of (lab_after 10 True) (lab_after 0 False) \<noteq> []"
proof -
  have i: "track_inv (lab_after 10 True)" "track_inv (lab_after 0 False)" "active (lab_after 0 False)"
    by (simp_all add: lab_after_def lab_track_def new_track_def track_inv_def active_def)
  from glyph_policy [OF i(1,2)] i(3) show ?thesis by (auto simp: lab_after_def)
qed

text \<open>The status text tells everything about a failing protocol: two failing states with the same
  text have the same number of consecutive losses and the same gateway reachability, and the
  text of a failing protocol is never that of a connected one.\<close>

lemma status_text_faithful:
  assumes "0 \<le> failStreak t" and "0 \<le> failStreak t'"
    and "protoStatusText tag Failing t = protoStatusText tag Failing t'"
  shows "failStreak t = failStreak t' \<and> gatewayReachable t = gatewayReachable t' \<and>
    protoStatusText tag Healthy t \<noteq> protoStatusText tag Failing t"
proof -
  let ?l = "\<lambda>t. '' consecutive losses'' @ (if gatewayReachable t then '' (gateway reachable)'' else [])"
  have shape: "protoStatusText tag Failing t = tag @ '': '' @ show_int (failStreak t) @ ?l t" for t
    by (simp add: protoStatusText_def)
  have eq: "show_int (failStreak t) @ ?l t = show_int (failStreak t') @ ?l t'"
    using assms(3) unfolding shape by simp
  have r: "gatewayReachable t = gatewayReachable t'"
  proof -
    have "last (?l t) = last (?l t')" using arg_cong [OF eq, of last] by (simp add: last_append split: if_splits)
    then show ?thesis by (simp split: if_splits)
  qed
  with eq have "show_int (failStreak t) = show_int (failStreak t')" by simp
  with show_int_inj assms(1,2) have "failStreak t = failStreak t'" by blast
  moreover have "protoStatusText tag Healthy t \<noteq> protoStatusText tag Failing t"
    by (simp add: protoStatusText_def Let_def)
  ultimately show ?thesis using r by blast
qed

lemma status_text_faithful_witness:
  "protoStatusText ''v4'' Failing (lab_after 10 True) \<noteq> protoStatusText ''v4'' Failing (lab_after 10 False)"
  using status_text_faithful [of "lab_after 10 True" "lab_after 10 False" "''v4''"]
  by (auto simp: lab_after_def)

text \<open>C17: The code and the README's rules, over the protocols that are active (configured, and seen with an
  address once, which the code never takes back), agree on the colour in every state but two kinds: when no active protocol
  is healthy, one is within its first nine losses and the other one has lost ten pings or more but
  reaches its gateway, the README's order says yellow and the code shows blue; and when no protocol is
  active the code shows green, for which the README requires that a ping has succeeded.\<close>

theorem colour_against_documentation:
  assumes "track_inv v4" and "track_inv v6" and "actives = filter active [v4, v6]"
  shows "colour_of v4 v6 =
    (if actives = [] then Green
     else if (\<forall>t \<in> set actives. failStreak t \<noteq> 0) \<and> (\<exists>t \<in> set actives. failStreak t \<le> 9) \<and>
        (\<exists>t \<in> set actives. gatewayReachable t)
     then Blue else documented_colour actives)"
proof -
  have e: "filter active [v4, v6] = [] \<longleftrightarrow> \<not> active v4 \<and> \<not> active v6" by simp
  show ?thesis
    unfolding assms(3) documented_colour_def active_filter colour_of_def e
    by (rule track_view [OF assms(1)]; rule track_view [OF assms(2)]; simp add: worstSeverityOf_def)
qed

theorem colour_against_documentation_witness:
  "colour_of (lab_after 10 True) (lab_after 3 False) = Blue \<and>
   documented_colour [lab_after 10 True, lab_after 3 False] = Yellow"
proof -
  have i: "track_inv (lab_after 10 True)" "track_inv (lab_after 3 False)"
    "[lab_after 10 True, lab_after 3 False] = filter active [lab_after 10 True, lab_after 3 False]"
    by (simp_all add: lab_after_def lab_track_def new_track_def track_inv_def active_def)
  have v: "failStreak (lab_after 10 True) = 10" "failStreak (lab_after 3 False) = 3" "gatewayReachable (lab_after 10 True)"
    by (simp_all add: lab_after_def)
  from colour_against_documentation [OF i] v show ?thesis by (simp add: documented_colour_def)
qed

text \<open>When no configured protocol has an address on the interface, the icon is green and the text
  says that no target was resolved, although the target may have been resolved and nothing has
  been reached.\<close>

lemma no_address_shows_green:
  assumes "track_inv v4" and "track_inv v6" and "\<not> hasLocalAddress v4" and "\<not> hasLocalAddress v6"
  shows "colour_of v4 v6 = Green \<and> status_of label v4 v6 = label @ '': no target resolved''"
  using colour_cases [OF assms(1,2)] assms(3,4)
  by (simp add: active_def status_of_def statusTextFor_def stateOf_def)

lemma no_address_shows_green_witness:
  "configured lab_track \<and> status_of ''WiFi'' lab_track new_track = ''WiFi: no target resolved''"
proof -
  have i: "track_inv lab_track" "track_inv new_track" "\<not> hasLocalAddress lab_track" "\<not> hasLocalAddress new_track"
    by (simp_all add: lab_track_def new_track_def track_inv_def)
  from no_address_shows_green [OF i, of "''WiFi''"] show ?thesis by (simp add: lab_track_def)
qed

end
