(* ===== verification/Ping_Icon.thy ===== *)
theory Ping_Icon
  imports Ping_Status
begin

section \<open>Painting and caching the icon (ping_monitor_icon.cpp)\<close>

text \<open>
  A pixmap is its size and the painting operations made on it, in order. What a font's glyphs
  measure is a parameter: \<open>ink px s\<close> is \<open>tightBoundingRect(s)\<close> of the bold painter font at \<open>px\<close>
  pixels, as left, top, width and height relative to the baseline origin.
\<close>

subsection \<open>Painting\<close>

datatype qcolor = Rgba nat nat nat nat | Invalid_color

abbreviation (input) "Qt_black \<equiv> Rgba 0 0 0 255"
abbreviation (input) "Qt_white \<equiv> Rgba 255 255 255 255"

datatype draw =
    Fill_transparent
  | Hint_antialiasing
  | Hint_text_antialiasing
  | Set_brush qcolor
  | Set_pen qcolor
  | Set_bold_font int
  | Draw_ellipse int int int int
  | Draw_text_centered int int int int string
  | Draw_text_at int int string

type_synonym pixmap = "int \<times> draw list"
type_synonym ink = "int \<Rightarrow> string \<Rightarrow> int \<times> int \<times> int \<times> int"

definition paintIconBase :: "string \<Rightarrow> int \<Rightarrow> qcolor \<Rightarrow> draw list" where
  "paintIconBase ifaceTag sz qc =
     [Set_brush qc, Set_pen (Rgba 0 0 0 60),
      Draw_ellipse (sz div 16) (sz div 16) (sz - sz div 8) (sz - sz div 8),
      Set_bold_font (sz * 26 div 64), Set_pen Qt_black,
      Draw_text_centered 0 0 sz sz ifaceTag]"

definition paintIconGlyph :: "ink \<Rightarrow> int \<Rightarrow> string \<Rightarrow> draw list" where
  "paintIconGlyph ink sz glyph =
     (if glyph = [] then []
      else let (inkLeft, inkTop, width, height) = ink (sz * 22 div 64) glyph;
               protoX = sz - width - inkLeft; protoY = - inkTop
           in [Set_bold_font (sz * 22 div 64), Set_pen Qt_white, Draw_text_at protoX protoY glyph])"

definition renderIcon :: "ink \<Rightarrow> string \<Rightarrow> int \<Rightarrow> qcolor \<Rightarrow> string \<Rightarrow> pixmap" where
  "renderIcon ink ifaceTag sz qc glyph =
     (sz, [Fill_transparent, Hint_antialiasing, Hint_text_antialiasing]
        @ paintIconBase ifaceTag sz qc @ paintIconGlyph ink sz glyph)"

fun qColorFor :: "severity \<Rightarrow> qcolor" where
  "qColorFor Green = Rgba 0x2e 0xcc 0x71 255"
| "qColorFor Blue = Rgba 0x34 0x98 0xdb 255"
| "qColorFor Yellow = Rgba 0xf1 0xc4 0x0f 255"
| "qColorFor Red = Rgba 0xe7 0x4c 0x3c 255"

subsection \<open>The cache\<close>

text \<open>\<open>static_cast<int>\<close> of the enumeration, which also orders it.\<close>

fun severity_code :: "severity \<Rightarrow> int" where
  "severity_code Green = 0"
| "severity_code Blue = 1"
| "severity_code Yellow = 2"
| "severity_code Red = 3"

lemma severity_code_inj [simp]: "severity_code s = severity_code s' \<longleftrightarrow> s = s'"
  by (cases s; cases s') simp_all

instantiation severity :: linorder
begin

definition less_eq_severity :: "severity \<Rightarrow> severity \<Rightarrow> bool" where
  "s \<le> s' \<longleftrightarrow> severity_code s \<le> severity_code s'"

definition less_severity :: "severity \<Rightarrow> severity \<Rightarrow> bool" where
  "s < s' \<longleftrightarrow> severity_code s < severity_code s'"

instance
  by standard (auto simp: less_eq_severity_def less_severity_def)

end

type_synonym icon = "pixmap list"
type_synonym icon_cache = "int \<times> string \<rightharpoonup> icon"

definition icon_sizes :: "int list" where
  "icon_sizes = [16, 22, 24, 32, 48, 64, 128]"

definition paintIcon :: "ink \<Rightarrow> string \<Rightarrow> severity \<Rightarrow> string \<Rightarrow> icon" where
  "paintIcon ink ifaceTag worst glyph =
     map (\<lambda>sz. renderIcon ink ifaceTag sz (qColorFor worst) glyph) icon_sizes"

definition iconFor ::
  "ink \<Rightarrow> string \<Rightarrow> severity \<Rightarrow> string \<Rightarrow> icon_cache \<Rightarrow> icon \<times> icon_cache" where
  "iconFor ink ifaceTag worst glyph cache =
     (let key = (severity_code worst, glyph)
      in case cache key of
           Some icon \<Rightarrow> (icon, cache)
         | None \<Rightarrow> (let icon = paintIcon ink ifaceTag worst glyph in (icon, cache(key \<mapsto> icon))))"

text \<open>Every cached icon is what painting it anew would give.\<close>

definition cache_inv :: "ink \<Rightarrow> string \<Rightarrow> icon_cache \<Rightarrow> bool" where
  "cache_inv ink tag cache \<longleftrightarrow>
     (\<forall>c g icon. cache (c, g) = Some icon \<longrightarrow> (\<exists>s. c = severity_code s \<and> icon = paintIcon ink tag s g))"

lemma cache_inv_empty [simp]: "cache_inv ink tag Map.empty"
  by (simp add: cache_inv_def)

lemma iconFor_paints:
  assumes "cache_inv ink tag cache"
  shows "fst (iconFor ink tag s g cache) = paintIcon ink tag s g"
    and "cache_inv ink tag (snd (iconFor ink tag s g cache))"
    and "dom (snd (iconFor ink tag s g cache)) = insert (severity_code s, g) (dom cache)"
    and "ran (snd (iconFor ink tag s g cache)) = insert (paintIcon ink tag s g) (ran cache)"
proof -
  show "fst (iconFor ink tag s g cache) = paintIcon ink tag s g" and "cache_inv ink tag (snd (iconFor ink tag s g cache))"
    using assms by (fastforce simp: iconFor_def Let_def cache_inv_def split: option.split if_splits)+
  show "dom (snd (iconFor ink tag s g cache)) = insert (severity_code s, g) (dom cache)"
    by (cases "cache (severity_code s, g)") (auto simp: iconFor_def Let_def)
  show "ran (snd (iconFor ink tag s g cache)) = insert (paintIcon ink tag s g) (ran cache)"
  proof (cases "cache (severity_code s, g)")
    case (Some icon)
    with assms obtain s' where "severity_code s = severity_code s'" "icon = paintIcon ink tag s' g"
      unfolding cache_inv_def by blast
    then have "icon = paintIcon ink tag s g" by simp
    with Some show ?thesis by (auto simp: iconFor_def Let_def ran_def)
  qed (simp add: iconFor_def Let_def)
qed

lemma paintIcon_eq:
  "paintIcon ink tag s g = paintIcon ink tag s' g' \<longleftrightarrow> s = s' \<and> g = g'"
proof
  assume "paintIcon ink tag s g = paintIcon ink tag s' g'"
  then have eq: "renderIcon ink tag 16 (qColorFor s) g = renderIcon ink tag 16 (qColorFor s') g'"
    by (simp add: paintIcon_def icon_sizes_def)
  then have "qColorFor s = qColorFor s'" and p: "paintIconGlyph ink 16 g = paintIconGlyph ink 16 g'"
    by (simp_all add: renderIcon_def paintIconBase_def)
  from p have "g = g'" by (auto simp: paintIconGlyph_def split: if_splits prod.splits)
  moreover from \<open>qColorFor s = qColorFor s'\<close> have "s = s'" by (cases s; cases s') simp_all
  ultimately show "s = s' \<and> g = g'" by simp
qed simp

subsection \<open>Properties\<close>

text \<open>The icons tell the states apart: for any font and any interface tag, two icons are the same
  only if they show the same severity and the same glyph, so that neither the colours nor the
  cache's keys ever confuse two states.\<close>

lemma paintIcon_injective:
  assumes "paintIcon ink tag s g = paintIcon ink tag s' g'"
  shows "s = s' \<and> g = g'"
  using assms by (simp only: paintIcon_eq)

lemma paintIcon_injective_witness:
  "paintIcon (\<lambda>px t. (0, - px, px, px)) ''wl0'' Red [] \<noteq> paintIcon (\<lambda>px t. (0, - px, px, px)) ''wl0'' Green ''4''"
  using paintIcon_injective [of "\<lambda>px t. (0, - px, px, px)" "''wl0''" Red "[]" Green "''4''"] by auto

text \<open>Where the ink of a text drawn at \<open>(x, y)\<close> comes to lie: left, top, right and bottom.\<close>

definition inked :: "ink \<Rightarrow> int \<Rightarrow> int \<times> int \<times> string \<Rightarrow> int \<times> int \<times> int \<times> int" where
  "inked ink px d =
     (let (x, y, s) = d; (inkLeft, inkTop, width, height) = ink px s
      in (x + inkLeft, y + inkTop, x + inkLeft + width, y + inkTop + height))"

text \<open>At every rendered size the disc lies inside the canvas, and the glyph's ink is flush with the
  canvas's top edge and right edge whatever the font's metrics are; it lies inside the canvas
  whenever it is no larger than the canvas.\<close>

lemma icon_geometry:
  assumes "sz \<in> set icon_sizes" and "glyph \<noteq> []"
    and "ink (sz * 22 div 64) glyph = (inkLeft, inkTop, width, height)" and "0 \<le> width" and "0 \<le> height"
    and "width \<le> sz" and "height \<le> sz"
  shows "\<exists>x y d px gx gy. 0 < px \<and>
    paintIconBase tag sz qc ! 2 = Draw_ellipse x y d d \<and> 0 \<le> x \<and> 0 \<le> y \<and> 0 < d \<and> x + d \<le> sz \<and> y + d \<le> sz \<and>
    paintIconGlyph ink sz glyph = [Set_bold_font px, Set_pen Qt_white, Draw_text_at gx gy glyph] \<and>
    inked ink px (gx, gy, glyph) = (sz - width, 0, sz, height) \<and> 0 \<le> sz - width \<and> height \<le> sz"
proof -
  have g: "paintIconGlyph ink sz glyph =
      [Set_bold_font (sz * 22 div 64), Set_pen Qt_white, Draw_text_at (sz - width - inkLeft) (- inkTop) glyph]"
    using assms(2,3) by (simp add: paintIconGlyph_def)
  have px: "0 < sz * 22 div 64" using assms(1) by (auto simp: icon_sizes_def)
  have i: "inked ink (sz * 22 div 64) (sz - width - inkLeft, - inkTop, glyph) = (sz - width, 0, sz, height)"
    using assms(3) by (simp add: inked_def)
  have "0 \<le> sz div 16 \<and> 0 < sz - sz div 8 \<and> sz div 16 + (sz - sz div 8) \<le> sz"
    using assms(1) by (auto simp: icon_sizes_def)
  moreover have "paintIconBase tag sz qc ! 2 =
      Draw_ellipse (sz div 16) (sz div 16) (sz - sz div 8) (sz - sz div 8)"
    by (simp add: paintIconBase_def)
  ultimately show ?thesis using g px i assms(6,7) by (metis diff_ge_0_iff_ge)
qed

lemma icon_geometry_witness:
  "\<exists>gx gy. inked (\<lambda>px t. (1, - px, 5, px)) 7 (gx, gy, ''4'') = (17, 0, 22, 7)"
  using icon_geometry [of 22 "''4''" "\<lambda>px t. (1, - px, 5, px)" 1 "-7" 5 7 "''wl0''" Qt_black]
  by (auto simp: icon_sizes_def paintIconGlyph_def)

end
