(* ===== verification/Ping_State.thy ===== *)
theory Ping_State
  imports Ping_Icon
begin

section \<open>The monitor's fields (ping_monitor.hpp)\<close>

text \<open>
  The fields of \<open>PingMonitor\<close> with their initial values, and the tag of an interface. The Qt
  widgets are the list of the calls made on them; what they show is what the last call of each
  kind set. Character classes and font measures of Qt are parameters.
\<close>

subsection \<open>State\<close>

datatype tray_call =
    New_tray_icon
  | Add_action string
  | Set_action_text string
  | Set_action_enabled bool
  | Add_separator
  | Add_quit_action string
  | Set_context_menu
  | Set_tool_tip string
  | Set_icon icon
  | Show_tray

record qt =
  qt_isLetter :: "char \<Rightarrow> bool"
  qt_isDigit :: "char \<Rightarrow> bool"
  qt_ink :: ink

type_synonym tick_state = "int \<times> bool \<times> bool \<times> int \<times> bool \<times> bool"

record monitor =
  m_iface :: string
  m_label :: string
  m_ifaceTag :: string
  m_tray :: "tray_call list"
  m_v4 :: proto_track
  m_v6 :: proto_track
  m_pid :: u16
  m_seq4 :: u16
  m_seq6 :: u16
  m_currentSeverity :: severity
  m_currentGlyph :: string
  m_iconCache :: icon_cache
  m_currentTooltip :: string
  m_lastTickState :: tick_state

definition initial_monitor :: "string \<Rightarrow> string \<Rightarrow> monitor" where
  "initial_monitor iface label = \<lparr>m_iface = iface, m_label = label, m_ifaceTag = [], m_tray = [],
     m_v4 = new_track, m_v6 = new_track, m_pid = 0, m_seq4 = 0, m_seq6 = 0, m_currentSeverity = Yellow,
     m_currentGlyph = [CHR 0x01], m_iconCache = Map.empty, m_currentTooltip = [],
     m_lastTickState = (-1, False, False, -1, False, False)\<rparr>"

text \<open>\<open>left(2)\<close> of the leading letters and \<open>right(1)\<close> of the trailing digits.\<close>

definition shortIfaceTag :: "qt \<Rightarrow> string \<Rightarrow> string" where
  "shortIfaceTag q iface =
     (let letters = take 2 (takeWhile (qt_isLetter q) iface);
          trailingDigits = rev (takeWhile (qt_isDigit q) (rev iface))
      in letters @ drop (length trailingDigits - 1) trailingDigits)"

end
