(* ===== verification/Ping_Protocols.thy ===== *)
theory Ping_Protocols
  imports Ping_State
begin

section \<open>The monitor's two protocols (ping_monitor_socket4.cpp, ping_monitor_socket6.cpp, ping_monitor_tick.cpp)\<close>

text \<open>
  The member functions that send, receive, check the gateway and tick, as the code has them: once
  for each protocol, on the fields of the monitor. Both are the one machine of \<open>tickProto\<close>,
  at the two families.
\<close>

subsection \<open>IPv4\<close>

definition openSocket4 :: "'w os \<Rightarrow> monitor \<times> 'w \<Rightarrow> monitor \<times> 'w" where
  "openSocket4 os mw =
     (let (mon, w) = mw;
          w = (if 0 \<le> sock (m_v4 mon) then sys_close os (sock (m_v4 mon)) w else w);
          (fd, w) = sys_socket os AF_INET SOCK_RAW IPPROTO_ICMP w;
          mon = mon\<lparr>m_v4 := (m_v4 mon)\<lparr>sock := fd\<rparr>\<rparr>
      in if sock (m_v4 mon) < 0 then (mon, w)
         else let (rc, w) = sys_bindtodevice os (sock (m_v4 mon)) (m_iface mon) w;
                  (rc, w) = sys_rcvtimeo os (sock (m_v4 mon)) (0, 800 * 1000) w
              in (mon, w))"

definition sendPing4 :: "'w os \<Rightarrow> string \<Rightarrow> monitor \<times> 'w \<Rightarrow> bool \<times> monitor \<times> 'w" where
  "sendPing4 os destIp mw =
     (let (mon, w) = mw
      in if sock (m_v4 mon) < 0 then (False, mon, w)
         else case sys_inet_pton os AF_INET destIp of
           None \<Rightarrow> (False, mon, w)
         | Some addr \<Rightarrow>
             (let packet = request4 (m_pid mon) (m_seq4 mon);
                  mon = mon\<lparr>m_seq4 := m_seq4 mon + 1\<rparr>;
                  (n, w) = sys_sendto os (sock (m_v4 mon)) packet (Sockaddr_in addr) w
              in (n = int (length packet), mon, w)))"

definition recvReply4 :: "'w os \<Rightarrow> ('w \<Rightarrow> buf) \<Rightarrow> monitor \<times> 'w \<Rightarrow> (bool \<times> monitor \<times> 'w) option" where
  "recvReply4 os junk mw =
     (let (mon, w) = mw
      in if sock (m_v4 mon) < 0 then Some (False, mon, w)
         else do {
           (r, w) \<leftarrow> recv_loop isMatchingReply4 os (sock (m_v4 mon)) (m_pid mon) (junk w) w;
           Some (r, mon, w)
         })"

text \<open>\<open>sendPing4(ip) && recvReply4()\<close>.\<close>

definition ping4 :: "'w os \<Rightarrow> ('w \<Rightarrow> buf) \<Rightarrow> string \<Rightarrow> monitor \<times> 'w \<Rightarrow> (bool \<times> monitor \<times> 'w) option" where
  "ping4 os junk ip mw =
     (let (sent, mw) = sendPing4 os ip mw
      in if sent then recvReply4 os junk mw else Some (False, mw))"

definition checkGateway4 :: "'w os \<Rightarrow> ('w \<Rightarrow> buf) \<Rightarrow> monitor \<times> 'w \<Rightarrow> (monitor \<times> 'w) option" where
  "checkGateway4 os junk mw =
     (let (mon, w) = mw
      in if gatewayMode (m_v4 mon) = Disabled
         then Some (mon\<lparr>m_v4 := (m_v4 mon)\<lparr>gatewayReachable := False\<rparr>\<rparr>, w)
         else do {
           (mon, w) \<leftarrow>
             (if gatewayResolved (m_v4 mon) then Some (mon, w)
              else do {
                let mon = mon\<lparr>m_v4 := (m_v4 mon)\<lparr>gatewayResolved := True\<rparr>\<rparr>;
                (gw, w) \<leftarrow> resolveGateway os (junk w) (m_iface mon) AF_INET w;
                Some (case gw of
                        Some g \<Rightarrow> mon\<lparr>m_v4 := (m_v4 mon)\<lparr>gatewayIp := g\<rparr>\<rparr>
                      | None \<Rightarrow> mon, w)
              });
           if gatewayIp (m_v4 mon) = []
           then Some (mon\<lparr>m_v4 := (m_v4 mon)\<lparr>gatewayReachable := False\<rparr>\<rparr>, w)
           else do {
             (r, mon, w) \<leftarrow> ping4 os junk (gatewayIp (m_v4 mon)) (mon, w);
             Some (mon\<lparr>m_v4 := (m_v4 mon)\<lparr>gatewayReachable := r\<rparr>\<rparr>, w)
           }
         })"

definition tickV4 :: "'w os \<Rightarrow> ('w \<Rightarrow> buf) \<Rightarrow> monitor \<times> 'w \<Rightarrow> (monitor \<times> 'w) option" where
  "tickV4 os junk mw =
     (let (mon, w) = mw;
          (t, w) = maybeRecheckLocalAddress os (m_iface mon) (m_v4 mon) AF_INET w;
          mon = mon\<lparr>m_v4 := t\<rparr>
      in if \<not> configured (m_v4 mon) \<or> \<not> hasLocalAddress (m_v4 mon) then Some (mon, w)
         else do {
           (ok, mon, w) \<leftarrow> ping4 os junk (targetIp (m_v4 mon)) (mon, w);
           if ok then Some (mon\<lparr>m_v4 := (m_v4 mon)\<lparr>failStreak := 0, gatewayReachable := False\<rparr>\<rparr>, w)
           else do {
             let mon = mon\<lparr>m_v4 := (m_v4 mon)\<lparr>failStreak := failStreak (m_v4 mon) + 1\<rparr>\<rparr>;
             let (mon, w) = (if failStreak (m_v4 mon) mod FailStreakForSocketRecreate = 0
                             then openSocket4 os (mon, w) else (mon, w));
             if FailStreakForGatewayCheck \<le> failStreak (m_v4 mon)
             then checkGateway4 os junk (mon, w) else Some (mon, w)
           }
         })"

subsection \<open>IPv6\<close>

definition openSocket6 :: "'w os \<Rightarrow> monitor \<times> 'w \<Rightarrow> monitor \<times> 'w" where
  "openSocket6 os mw =
     (let (mon, w) = mw;
          w = (if 0 \<le> sock (m_v6 mon) then sys_close os (sock (m_v6 mon)) w else w);
          (fd, w) = sys_socket os AF_INET6 SOCK_RAW IPPROTO_ICMPV6 w;
          mon = mon\<lparr>m_v6 := (m_v6 mon)\<lparr>sock := fd\<rparr>\<rparr>
      in if sock (m_v6 mon) < 0 then (mon, w)
         else let (rc, w) = sys_bindtodevice os (sock (m_v6 mon)) (m_iface mon) w;
                  (rc, w) = sys_rcvtimeo os (sock (m_v6 mon)) (0, 800 * 1000) w
              in (mon, w))"

definition sendPing6 :: "'w os \<Rightarrow> string \<Rightarrow> monitor \<times> 'w \<Rightarrow> bool \<times> monitor \<times> 'w" where
  "sendPing6 os destIp mw =
     (let (mon, w) = mw
      in if sock (m_v6 mon) < 0 then (False, mon, w)
         else case sys_inet_pton os AF_INET6 destIp of
           None \<Rightarrow> (False, mon, w)
         | Some addr \<Rightarrow>
             (let packet = request6 (m_pid mon) (m_seq6 mon);
                  mon = mon\<lparr>m_seq6 := m_seq6 mon + 1\<rparr>;
                  (n, w) = sys_sendto os (sock (m_v6 mon)) packet (Sockaddr_in6 addr) w
              in (n = int (length packet), mon, w)))"

definition recvReply6 :: "'w os \<Rightarrow> ('w \<Rightarrow> buf) \<Rightarrow> monitor \<times> 'w \<Rightarrow> (bool \<times> monitor \<times> 'w) option" where
  "recvReply6 os junk mw =
     (let (mon, w) = mw
      in if sock (m_v6 mon) < 0 then Some (False, mon, w)
         else do {
           (r, w) \<leftarrow> recv_loop isMatchingReply6 os (sock (m_v6 mon)) (m_pid mon) (junk w) w;
           Some (r, mon, w)
         })"

text \<open>\<open>sendPing6(ip) && recvReply6()\<close>.\<close>

definition ping6 :: "'w os \<Rightarrow> ('w \<Rightarrow> buf) \<Rightarrow> string \<Rightarrow> monitor \<times> 'w \<Rightarrow> (bool \<times> monitor \<times> 'w) option" where
  "ping6 os junk ip mw =
     (let (sent, mw) = sendPing6 os ip mw
      in if sent then recvReply6 os junk mw else Some (False, mw))"

definition checkGateway6 :: "'w os \<Rightarrow> ('w \<Rightarrow> buf) \<Rightarrow> monitor \<times> 'w \<Rightarrow> (monitor \<times> 'w) option" where
  "checkGateway6 os junk mw =
     (let (mon, w) = mw
      in if gatewayMode (m_v6 mon) = Disabled
         then Some (mon\<lparr>m_v6 := (m_v6 mon)\<lparr>gatewayReachable := False\<rparr>\<rparr>, w)
         else do {
           (mon, w) \<leftarrow>
             (if gatewayResolved (m_v6 mon) then Some (mon, w)
              else do {
                let mon = mon\<lparr>m_v6 := (m_v6 mon)\<lparr>gatewayResolved := True\<rparr>\<rparr>;
                (gw, w) \<leftarrow> resolveGateway os (junk w) (m_iface mon) AF_INET6 w;
                Some (case gw of
                        Some g \<Rightarrow> mon\<lparr>m_v6 := (m_v6 mon)\<lparr>gatewayIp := g\<rparr>\<rparr>
                      | None \<Rightarrow> mon, w)
              });
           if gatewayIp (m_v6 mon) = []
           then Some (mon\<lparr>m_v6 := (m_v6 mon)\<lparr>gatewayReachable := False\<rparr>\<rparr>, w)
           else do {
             (r, mon, w) \<leftarrow> ping6 os junk (gatewayIp (m_v6 mon)) (mon, w);
             Some (mon\<lparr>m_v6 := (m_v6 mon)\<lparr>gatewayReachable := r\<rparr>\<rparr>, w)
           }
         })"

definition tickV6 :: "'w os \<Rightarrow> ('w \<Rightarrow> buf) \<Rightarrow> monitor \<times> 'w \<Rightarrow> (monitor \<times> 'w) option" where
  "tickV6 os junk mw =
     (let (mon, w) = mw;
          (t, w) = maybeRecheckLocalAddress os (m_iface mon) (m_v6 mon) AF_INET6 w;
          mon = mon\<lparr>m_v6 := t\<rparr>
      in if \<not> configured (m_v6 mon) \<or> \<not> hasLocalAddress (m_v6 mon) then Some (mon, w)
         else do {
           (ok, mon, w) \<leftarrow> ping6 os junk (targetIp (m_v6 mon)) (mon, w);
           if ok then Some (mon\<lparr>m_v6 := (m_v6 mon)\<lparr>failStreak := 0, gatewayReachable := False\<rparr>\<rparr>, w)
           else do {
             let mon = mon\<lparr>m_v6 := (m_v6 mon)\<lparr>failStreak := failStreak (m_v6 mon) + 1\<rparr>\<rparr>;
             let (mon, w) = (if failStreak (m_v6 mon) mod FailStreakForSocketRecreate = 0
                             then openSocket6 os (mon, w) else (mon, w));
             if FailStreakForGatewayCheck \<le> failStreak (m_v6 mon)
             then checkGateway6 os junk (mon, w) else Some (mon, w)
           }
         })"

subsection \<open>Both are the same machine\<close>

lemma openSocket4_eq:
  "openSocket4 os mw =
     (let (t, w) = openSocket inet4 os (m_iface (fst mw)) (m_v4 (fst mw)) (snd mw)
      in ((fst mw)\<lparr>m_v4 := t\<rparr>, w))"
  by (cases mw) (simp add: openSocket4_def openSocket_def inet4_def Let_def split: prod.split)

lemma ping4_eq:
  "ping4 os junk ip (mon, w) =
     do {
       (r, seq, w) \<leftarrow> ping inet4 os junk (m_pid mon) ip (m_v4 mon) (m_seq4 mon) w;
       Some (r, mon\<lparr>m_seq4 := seq\<rparr>, w)
     }"
proof (cases "sock (m_v4 mon) < 0 \<or> sys_inet_pton os AF_INET ip = None")
  case True
  then show ?thesis
    by (auto simp: ping4_def sendPing4_def ping_def sendPing_def inet4_def)
next
  case False
  then obtain a where a: "sys_inet_pton os AF_INET ip = Some a" "\<not> sock (m_v4 mon) < 0" by auto
  obtain n w1 where "sys_sendto os (sock (m_v4 mon)) (request4 (m_pid mon) (m_seq4 mon)) (Sockaddr_in a) w = (n, w1)"
    by fastforce
  with a show ?thesis
    by (cases "n = 24") (simp_all add: ping4_def sendPing4_def recvReply4_def ping_def sendPing_def
        recvReply_def inet4_def layout_simps Let_def case_prod_unfold del: bind_Some_iff)
qed

lemma checkGateway4_eq:
  "checkGateway4 os junk (mon, w) =
     do {
       (t, seq, w) \<leftarrow> checkGateway inet4 os junk (m_iface mon) (m_pid mon) (m_v4 mon) (m_seq4 mon) w;
       Some (mon\<lparr>m_v4 := t, m_seq4 := seq\<rparr>, w)
     }"
proof (cases "gatewayMode (m_v4 mon) = Disabled")
  case True
  then show ?thesis by (cases mon) (simp add: checkGateway4_def checkGateway_def)
next
  case False
  have "checkGateway4 os junk (mon, w) =
      do {
        (t, w) \<leftarrow> lookupGateway inet4 os junk (m_iface mon) (m_v4 mon) w;
        if gatewayIp t = [] then Some (mon\<lparr>m_v4 := t\<lparr>gatewayReachable := False\<rparr>\<rparr>, w)
        else do {
          (r, mon, w) \<leftarrow> ping4 os junk (gatewayIp t) (mon\<lparr>m_v4 := t\<rparr>, w);
          Some (mon\<lparr>m_v4 := (m_v4 mon)\<lparr>gatewayReachable := r\<rparr>\<rparr>, w)
        }
      }"
    using False
    by (cases "resolveGateway os (junk w) (m_iface mon) AF_INET w")
      (auto simp: checkGateway4_def lookupGateway_def inet4_def Let_def simp del: bind_Some_iff
        split: option.split)
  also have "\<dots> = do {
       (t, seq, w) \<leftarrow> checkGateway inet4 os junk (m_iface mon) (m_pid mon) (m_v4 mon) (m_seq4 mon) w;
       Some (mon\<lparr>m_v4 := t, m_seq4 := seq\<rparr>, w)
     }"
  proof (cases "lookupGateway inet4 os junk (m_iface mon) (m_v4 mon) w")
    case None
    with False show ?thesis by (simp add: checkGateway_def)
  next
    case (Some tw)
    obtain t w1 where tw: "tw = (t, w1)" by fastforce
    show ?thesis
    proof (cases "ping inet4 os junk (m_pid mon) (gatewayIp t) t (m_seq4 mon) w1")
      case None
      with Some False tw show ?thesis
        by (cases mon) (auto simp: checkGateway_def ping4_eq simp del: bind_Some_iff)
    next
      case (Some x)
      with \<open>lookupGateway inet4 os junk (m_iface mon) (m_v4 mon) w = Some tw\<close> False tw show ?thesis
        by (cases mon; cases x) (auto simp: checkGateway_def ping4_eq simp del: bind_Some_iff)
    qed
  qed
  finally show ?thesis .
qed

lemma tickV4_eq:
  "tickV4 os junk (mon, w) =
     do {
       (t, seq, w) \<leftarrow> tickProto inet4 os junk (m_iface mon) (m_pid mon) (m_v4 mon, m_seq4 mon, w);
       Some (mon\<lparr>m_v4 := t, m_seq4 := seq\<rparr>, w)
     }"
proof -
  obtain t w1 where m: "maybeRecheckLocalAddress os (m_iface mon) (m_v4 mon) (fam_af inet4) w = (t, w1)" by fastforce
  let ?m1 = "mon\<lparr>m_v4 := t\<rparr>"
  show ?thesis
  proof (cases "configured t \<and> hasLocalAddress t")
    case False
    with m show ?thesis by (cases mon) (auto simp: tickV4_def tickProto_def inet4_def)
  next
    case True
    show ?thesis
    proof (cases "ping inet4 os junk (m_pid mon) (targetIp t) t (m_seq4 mon) w1")
      case None
      with True m show ?thesis
        by (auto simp: tickV4_def tickProto_def inet4_def ping4_eq simp del: bind_Some_iff)
    next
      case (Some x)
      obtain ok seq w2 where x: "x = (ok, seq, w2)" by (cases x)
      let ?lost = "t\<lparr>failStreak := failStreak t + 1\<rparr>"
      obtain t3 w3 where o: "openSocket inet4 os (m_iface mon) ?lost w2 = (t3, w3)" by fastforce
      have af: "fam_af inet4 = AF_INET" by (simp add: inet4_def)
      show ?thesis
      proof (cases "(failStreak t + 1) mod 10 = 0")
        case True
        with \<open>configured t \<and> hasLocalAddress t\<close> m Some x o show ?thesis
          by (cases mon) (auto simp: tickV4_def tickProto_def af ping4_eq openSocket4_eq checkGateway4_eq
            Let_def simp del: bind_Some_iff)
      next
        case False
        with \<open>configured t \<and> hasLocalAddress t\<close> m Some x show ?thesis
          by (cases mon) (auto simp: tickV4_def tickProto_def af ping4_eq checkGateway4_eq
            Let_def simp del: bind_Some_iff)
      qed
    qed
  qed
qed

lemma openSocket6_eq:
  "openSocket6 os mw =
     (let (t, w) = openSocket inet6 os (m_iface (fst mw)) (m_v6 (fst mw)) (snd mw)
      in ((fst mw)\<lparr>m_v6 := t\<rparr>, w))"
  by (cases mw) (simp add: openSocket6_def openSocket_def inet6_def Let_def split: prod.split)

lemma ping6_eq:
  "ping6 os junk ip (mon, w) =
     do {
       (r, seq, w) \<leftarrow> ping inet6 os junk (m_pid mon) ip (m_v6 mon) (m_seq6 mon) w;
       Some (r, mon\<lparr>m_seq6 := seq\<rparr>, w)
     }"
proof (cases "sock (m_v6 mon) < 0 \<or> sys_inet_pton os AF_INET6 ip = None")
  case True
  then show ?thesis
    by (auto simp: ping6_def sendPing6_def ping_def sendPing_def inet6_def)
next
  case False
  then obtain a where a: "sys_inet_pton os AF_INET6 ip = Some a" "\<not> sock (m_v6 mon) < 0" by auto
  obtain n w1 where "sys_sendto os (sock (m_v6 mon)) (request6 (m_pid mon) (m_seq6 mon)) (Sockaddr_in6 a) w = (n, w1)"
    by fastforce
  with a show ?thesis
    by (cases "n = 24") (simp_all add: ping6_def sendPing6_def recvReply6_def ping_def sendPing_def
        recvReply_def inet6_def layout_simps Let_def case_prod_unfold del: bind_Some_iff)
qed

lemma checkGateway6_eq:
  "checkGateway6 os junk (mon, w) =
     do {
       (t, seq, w) \<leftarrow> checkGateway inet6 os junk (m_iface mon) (m_pid mon) (m_v6 mon) (m_seq6 mon) w;
       Some (mon\<lparr>m_v6 := t, m_seq6 := seq\<rparr>, w)
     }"
proof (cases "gatewayMode (m_v6 mon) = Disabled")
  case True
  then show ?thesis by (cases mon) (simp add: checkGateway6_def checkGateway_def)
next
  case False
  have "checkGateway6 os junk (mon, w) =
      do {
        (t, w) \<leftarrow> lookupGateway inet6 os junk (m_iface mon) (m_v6 mon) w;
        if gatewayIp t = [] then Some (mon\<lparr>m_v6 := t\<lparr>gatewayReachable := False\<rparr>\<rparr>, w)
        else do {
          (r, mon, w) \<leftarrow> ping6 os junk (gatewayIp t) (mon\<lparr>m_v6 := t\<rparr>, w);
          Some (mon\<lparr>m_v6 := (m_v6 mon)\<lparr>gatewayReachable := r\<rparr>\<rparr>, w)
        }
      }"
    using False
    by (cases "resolveGateway os (junk w) (m_iface mon) AF_INET6 w")
      (auto simp: checkGateway6_def lookupGateway_def inet6_def Let_def simp del: bind_Some_iff
        split: option.split)
  also have "\<dots> = do {
       (t, seq, w) \<leftarrow> checkGateway inet6 os junk (m_iface mon) (m_pid mon) (m_v6 mon) (m_seq6 mon) w;
       Some (mon\<lparr>m_v6 := t, m_seq6 := seq\<rparr>, w)
     }"
  proof (cases "lookupGateway inet6 os junk (m_iface mon) (m_v6 mon) w")
    case None
    with False show ?thesis by (simp add: checkGateway_def)
  next
    case (Some tw)
    obtain t w1 where tw: "tw = (t, w1)" by fastforce
    show ?thesis
    proof (cases "ping inet6 os junk (m_pid mon) (gatewayIp t) t (m_seq6 mon) w1")
      case None
      with Some False tw show ?thesis
        by (cases mon) (auto simp: checkGateway_def ping6_eq simp del: bind_Some_iff)
    next
      case (Some x)
      with \<open>lookupGateway inet6 os junk (m_iface mon) (m_v6 mon) w = Some tw\<close> False tw show ?thesis
        by (cases mon; cases x) (auto simp: checkGateway_def ping6_eq simp del: bind_Some_iff)
    qed
  qed
  finally show ?thesis .
qed

lemma tickV6_eq:
  "tickV6 os junk (mon, w) =
     do {
       (t, seq, w) \<leftarrow> tickProto inet6 os junk (m_iface mon) (m_pid mon) (m_v6 mon, m_seq6 mon, w);
       Some (mon\<lparr>m_v6 := t, m_seq6 := seq\<rparr>, w)
     }"
proof -
  obtain t w1 where m: "maybeRecheckLocalAddress os (m_iface mon) (m_v6 mon) (fam_af inet6) w = (t, w1)" by fastforce
  let ?m1 = "mon\<lparr>m_v6 := t\<rparr>"
  show ?thesis
  proof (cases "configured t \<and> hasLocalAddress t")
    case False
    with m show ?thesis by (cases mon) (auto simp: tickV6_def tickProto_def inet6_def)
  next
    case True
    show ?thesis
    proof (cases "ping inet6 os junk (m_pid mon) (targetIp t) t (m_seq6 mon) w1")
      case None
      with True m show ?thesis
        by (auto simp: tickV6_def tickProto_def inet6_def ping6_eq simp del: bind_Some_iff)
    next
      case (Some x)
      obtain ok seq w2 where x: "x = (ok, seq, w2)" by (cases x)
      let ?lost = "t\<lparr>failStreak := failStreak t + 1\<rparr>"
      obtain t3 w3 where o: "openSocket inet6 os (m_iface mon) ?lost w2 = (t3, w3)" by fastforce
      have af: "fam_af inet6 = AF_INET6" by (simp add: inet6_def)
      show ?thesis
      proof (cases "(failStreak t + 1) mod 10 = 0")
        case True
        with \<open>configured t \<and> hasLocalAddress t\<close> m Some x o show ?thesis
          by (cases mon) (auto simp: tickV6_def tickProto_def af ping6_eq openSocket6_eq checkGateway6_eq
            Let_def simp del: bind_Some_iff)
      next
        case False
        with \<open>configured t \<and> hasLocalAddress t\<close> m Some x show ?thesis
          by (cases mon) (auto simp: tickV6_def tickProto_def af ping6_eq checkGateway6_eq
            Let_def simp del: bind_Some_iff)
      qed
    qed
  qed
qed

text \<open>C6: The two copies of the code agree: for every monitor, platform and content of the receive
  arrays, \<open>tickV4\<close> and \<open>tickV6\<close> are the one machine \<open>tickProto\<close>, run on their own track and their
  own sequence number with the constants and messages of their protocol; each leaves every field
  of the other protocol and of the tray alone, and one returns exactly when its machine does.\<close>

theorem protocols_are_one_machine:
  "tickV4 os junk (mon, w) =
     map_option (\<lambda>(t, seq, w). (mon\<lparr>m_v4 := t, m_seq4 := seq\<rparr>, w))
       (tickProto inet4 os junk (m_iface mon) (m_pid mon) (m_v4 mon, m_seq4 mon, w)) \<and>
   tickV6 os junk (mon, w) =
     map_option (\<lambda>(t, seq, w). (mon\<lparr>m_v6 := t, m_seq6 := seq\<rparr>, w))
       (tickProto inet6 os junk (m_iface mon) (m_pid mon) (m_v6 mon, m_seq6 mon, w))"
  by (simp add: tickV4_eq tickV6_eq map_conv_bind_option comp_def case_prod_unfold)

end
