(* ===== verification/Ping_Monitor.thy ===== *)
theory Ping_Monitor
  imports Ping_Protocols
begin

section \<open>The monitor (ping_monitor.cpp, ping_monitor_tick.cpp)\<close>

text \<open>
  \<open>PingMonitor\<close>: its fields, its construction, the timer's \<open>tick\<close> and the calls it makes on the
  tray icon. The Qt widgets are the list of the calls made on them; what they show is what the
  last call of each kind set. Character classes and font measures of Qt are parameters.
\<close>

subsection \<open>Showing the state\<close>

definition setIcon :: "qt \<Rightarrow> severity \<Rightarrow> string \<Rightarrow> monitor \<Rightarrow> monitor" where
  "setIcon q worst glyph mon =
     (if worst = m_currentSeverity mon \<and> glyph = m_currentGlyph mon then mon
      else let mon = mon\<lparr>m_currentSeverity := worst, m_currentGlyph := glyph\<rparr>;
               (icon, cache) = iconFor (qt_ink q) (m_ifaceTag mon) worst glyph (m_iconCache mon)
           in mon\<lparr>m_iconCache := cache, m_tray := m_tray mon @ [Set_icon icon]\<rparr>)"

definition applyStatus :: "string \<Rightarrow> monitor \<Rightarrow> monitor" where
  "applyStatus status mon =
     (let mon = mon\<lparr>m_tray := m_tray mon @ [Set_action_text status]\<rparr>
      in if status \<noteq> m_currentTooltip mon
         then mon\<lparr>m_currentTooltip := status, m_tray := m_tray mon @ [Set_tool_tip status]\<rparr>
         else mon)"

definition renderTray :: "qt \<Rightarrow> monitor \<Rightarrow> monitor" where
  "renderTray q mon =
     (let v4State = stateOf (m_v4 mon); v6State = stateOf (m_v6 mon);
          v4Severity = severityOf (m_v4 mon); v6Severity = severityOf (m_v6 mon);
          glyph = glyphFor v4State v6State v4Severity v6Severity;
          color = worstSeverityOf v4State v6State v4Severity v6Severity;
          mon = setIcon q color glyph mon
      in applyStatus (statusTextFor (m_label mon) v4State v6State (m_v4 mon) (m_v6 mon)) mon)"

definition setupTray :: "qt \<Rightarrow> monitor \<Rightarrow> monitor" where
  "setupTray q mon =
     (let mon = mon\<lparr>m_tray := m_tray mon @
            [New_tray_icon, Add_action (m_label mon @ '': starting...''), Set_action_enabled False,
             Add_separator, Add_quit_action ''Quit'', Set_context_menu, Set_tool_tip (m_label mon)]\<rparr>;
          mon = renderTray q mon
      in mon\<lparr>m_tray := m_tray mon @ [Show_tray]\<rparr>)"

subsection \<open>Construction\<close>

definition resolveInitialTargets :: "'w os \<Rightarrow> string \<Rightarrow> string \<Rightarrow> monitor \<times> 'w \<Rightarrow> monitor \<times> 'w" where
  "resolveInitialTargets os target target6 mw =
     (let (mon, w) = mw;
          (resolved, w) = resolveTargets os target w;
          mon = (case rt_v4 resolved of
                   Some a \<Rightarrow> mon\<lparr>m_v4 := (m_v4 mon)\<lparr>targetIp := a, configured := True\<rparr>\<rparr> | None \<Rightarrow> mon);
          mon = (case rt_v6 resolved of
                   Some a \<Rightarrow> mon\<lparr>m_v6 := (m_v6 mon)\<lparr>targetIp := a, configured := True\<rparr>\<rparr> | None \<Rightarrow> mon)
      in if \<not> configured (m_v6 mon) \<and> target6 \<noteq> []
         then let (resolved6, w) = resolveTargets os target6 w
              in (case rt_v6 resolved6 of
                    Some a \<Rightarrow> mon\<lparr>m_v6 := (m_v6 mon)\<lparr>targetIp := a, configured := True\<rparr>\<rparr> | None \<Rightarrow> mon, w)
         else (mon, w))"

definition applyGatewayOverride :: "proto_track \<Rightarrow> string \<Rightarrow> proto_track" where
  "applyGatewayOverride t gatewayIpOverride =
     (let ov = GatewayOverride gatewayIpOverride;
          t = t\<lparr>gatewayMode := go_mode ov\<rparr>
      in if gatewayMode t = Fixed then t\<lparr>gatewayIp := go_fixedIp ov, gatewayResolved := True\<rparr> else t)"

definition newPingMonitor ::
  "qt \<Rightarrow> 'w os \<Rightarrow> string \<Rightarrow> string \<Rightarrow> string \<Rightarrow> string \<Rightarrow> string \<Rightarrow> string \<Rightarrow> 'w \<Rightarrow> monitor \<times> 'w" where
  "newPingMonitor q os iface target target6 label gatewayIpOverride4 gatewayIpOverride6 w =
     (let mon = initial_monitor iface label;
          mon = mon\<lparr>m_pid := of_nat (sys_getpid os w)\<rparr>;
          mon = mon\<lparr>m_ifaceTag := shortIfaceTag q (m_iface mon)\<rparr>;
          (mon, w) = resolveInitialTargets os target target6 (mon, w);
          mon = mon\<lparr>m_v4 := applyGatewayOverride (m_v4 mon) gatewayIpOverride4\<rparr>;
          mon = mon\<lparr>m_v6 := applyGatewayOverride (m_v6 mon) gatewayIpOverride6\<rparr>;
          mon = setupTray q mon;
          (mon, w) = (if configured (m_v4 mon) then openSocket4 os (mon, w) else (mon, w))
      in if configured (m_v6 mon) then openSocket6 os (mon, w) else (mon, w))"

subsection \<open>The timer\<close>

definition tick_state_of :: "proto_track \<Rightarrow> proto_track \<Rightarrow> tick_state" where
  "tick_state_of v4 v6 =
     (failStreak v4, hasLocalAddress v4, gatewayReachable v4,
      failStreak v6, hasLocalAddress v6, gatewayReachable v6)"

definition monitor_tick :: "qt \<Rightarrow> 'w os \<Rightarrow> ('w \<Rightarrow> buf) \<Rightarrow> monitor \<times> 'w \<Rightarrow> (monitor \<times> 'w) option" where
  "monitor_tick q os junk mw =
     do {
       mw \<leftarrow> tickV4 os junk mw;
       (mon, w) \<leftarrow> tickV6 os junk mw;
       let state = tick_state_of (m_v4 mon) (m_v6 mon);
       Some (if state \<noteq> m_lastTickState mon then renderTray q (mon\<lparr>m_lastTickState := state\<rparr>) else mon, w)
     }"

subsection \<open>What the tray shows\<close>

definition icons_set :: "tray_call list \<Rightarrow> icon list" where
  "icons_set cs = List.map_filter (\<lambda>c. case c of Set_icon i \<Rightarrow> Some i | _ \<Rightarrow> None) cs"

definition tooltips_set :: "tray_call list \<Rightarrow> string list" where
  "tooltips_set cs = List.map_filter (\<lambda>c. case c of Set_tool_tip s \<Rightarrow> Some s | _ \<Rightarrow> None) cs"

definition texts_set :: "tray_call list \<Rightarrow> string list" where
  "texts_set cs = List.map_filter (\<lambda>c. case c of Set_action_text s \<Rightarrow> Some s | _ \<Rightarrow> None) cs"

lemma map_filter_append: "List.map_filter f (xs @ ys) = List.map_filter f xs @ List.map_filter f ys"
  by (simp add: List.map_filter_def)

lemma icons_set_simps [simp]:
  "icons_set [] = []" "icons_set (cs @ ds) = icons_set cs @ icons_set ds"
  "icons_set (c # cs) = (case c of Set_icon i \<Rightarrow> [i] | _ \<Rightarrow> []) @ icons_set cs"
  by (simp_all add: icons_set_def map_filter_append List.map_filter_simps split: tray_call.split)

lemma tooltips_set_simps [simp]:
  "tooltips_set [] = []" "tooltips_set (cs @ ds) = tooltips_set cs @ tooltips_set ds"
  "tooltips_set (c # cs) = (case c of Set_tool_tip s \<Rightarrow> [s] | _ \<Rightarrow> []) @ tooltips_set cs"
  by (simp_all add: tooltips_set_def map_filter_append List.map_filter_simps split: tray_call.split)

lemma texts_set_simps [simp]:
  "texts_set [] = []" "texts_set (cs @ ds) = texts_set cs @ texts_set ds"
  "texts_set (c # cs) = (case c of Set_action_text s \<Rightarrow> [s] | _ \<Rightarrow> []) @ texts_set cs"
  by (simp_all add: texts_set_def map_filter_append List.map_filter_simps split: tray_call.split)

text \<open>The icon of two tracks, and a monitor that shows what its tracks are.\<close>

definition icon_of :: "qt \<Rightarrow> string \<Rightarrow> proto_track \<Rightarrow> proto_track \<Rightarrow> icon" where
  "icon_of q tag v4 v6 = paintIcon (qt_ink q) tag (colour_of v4 v6) (glyph_of v4 v6)"

definition shows_state :: "qt \<Rightarrow> monitor \<Rightarrow> bool" where
  "shows_state q mon \<longleftrightarrow>
     last_of (icons_set (m_tray mon)) = Some (icon_of q (m_ifaceTag mon) (m_v4 mon) (m_v6 mon)) \<and>
     last_of (texts_set (m_tray mon)) = Some (status_of (m_label mon) (m_v4 mon) (m_v6 mon)) \<and>
     last_of (tooltips_set (m_tray mon)) = Some (status_of (m_label mon) (m_v4 mon) (m_v6 mon))"

text \<open>
  How the fields that remember what is shown relate to the calls made: the cache holds the icons that
  have been set; before the first rendering no icon and only the label as tool tip has been set.
\<close>

definition render_inv :: "qt \<Rightarrow> monitor \<Rightarrow> bool" where
  "render_inv q mon \<longleftrightarrow>
     cache_inv (qt_ink q) (m_ifaceTag mon) (m_iconCache mon) \<and>
     set (icons_set (m_tray mon)) = ran (m_iconCache mon) \<and>
     distinct_adj (icons_set (m_tray mon)) \<and> distinct_adj (tooltips_set (m_tray mon)) \<and>
     (icons_set (m_tray mon) = [] \<and> m_currentGlyph mon = [CHR 0x01] \<or>
      last_of (icons_set (m_tray mon)) =
        Some (paintIcon (qt_ink q) (m_ifaceTag mon) (m_currentSeverity mon) (m_currentGlyph mon))) \<and>
     (tooltips_set (m_tray mon) = [m_label mon] \<and> m_currentTooltip mon = [] \<or>
      last_of (tooltips_set (m_tray mon)) = Some (m_currentTooltip mon))"

lemma distinct_adj_snoc: "distinct_adj (xs @ [x]) \<longleftrightarrow> distinct_adj xs \<and> last_of xs \<noteq> Some x"
  by (induction xs rule: induct_list012) (auto simp: last_of_def distinct_adj_Cons_Cons)

lemma glyphFor_not_sentinel: "glyphFor a b c d \<noteq> [CHR 0x01]"
  by (simp add: glyphFor_def)

lemma status_longer: "status_of label v4 v6 \<noteq> [] \<and> status_of label v4 v6 \<noteq> label"
  by (simp add: status_of_def statusTextFor_def Let_def)

lemma last_of_snoc [simp]: "last_of (xs @ [x]) = Some x"
  by (simp add: last_of_def)

lemma setIcon_frame:
  "m_v4 (setIcon q s g mon) = m_v4 mon" "m_v6 (setIcon q s g mon) = m_v6 mon"
  "m_label (setIcon q s g mon) = m_label mon" "m_ifaceTag (setIcon q s g mon) = m_ifaceTag mon"
  "m_lastTickState (setIcon q s g mon) = m_lastTickState mon" "m_pid (setIcon q s g mon) = m_pid mon"
  "m_iface (setIcon q s g mon) = m_iface mon"
  "tooltips_set (m_tray (setIcon q s g mon)) = tooltips_set (m_tray mon)"
  "m_currentTooltip (setIcon q s g mon) = m_currentTooltip mon"
  "m_currentSeverity (setIcon q s g mon) = s" "m_currentGlyph (setIcon q s g mon) = g"
  by (auto simp: setIcon_def Let_def split: prod.split)

lemma setIcon_shows:
  assumes "render_inv q mon" and "g \<noteq> [CHR 0x01]"
  shows "render_inv q (setIcon q s g mon)"
    and "last_of (icons_set (m_tray (setIcon q s g mon))) = Some (paintIcon (qt_ink q) (m_ifaceTag mon) s g)"
proof -
  let ?p = "paintIcon (qt_ink q) (m_ifaceTag mon)"
  note inv = assms(1) [unfolded render_inv_def]
  have "render_inv q (setIcon q s g mon) \<and> last_of (icons_set (m_tray (setIcon q s g mon))) = Some (?p s g)"
  proof (cases "s = m_currentSeverity mon \<and> g = m_currentGlyph mon")
    case True
    then have "setIcon q s g mon = mon" by (simp add: setIcon_def)
    with assms inv True show ?thesis by auto
  next
    case False
    let ?r = "iconFor (qt_ink q) (m_ifaceTag mon) s g (m_iconCache mon)"
    have c: "fst ?r = ?p s g" "cache_inv (qt_ink q) (m_ifaceTag mon) (snd ?r)"
      and k: "ran (snd ?r) = insert (?p s g) (ran (m_iconCache mon))"
      using iconFor_paints(1,2,4) inv by blast+
    have set: "setIcon q s g mon = mon\<lparr>m_currentSeverity := s, m_currentGlyph := g, m_iconCache := snd ?r,
        m_tray := m_tray mon @ [Set_icon (?p s g)]\<rparr>"
      using False c(1) by (auto simp: setIcon_def split: prod.split)
    have "last_of (icons_set (m_tray mon)) \<noteq> Some (?p s g)"
      using inv False assms(2) by (auto simp: paintIcon_eq)
    with inv c(2) k show ?thesis unfolding set by (simp add: render_inv_def distinct_adj_snoc)
  qed
  then show "render_inv q (setIcon q s g mon)"
    and "last_of (icons_set (m_tray (setIcon q s g mon))) = Some (?p s g)" by auto
qed

lemma applyStatus_frame:
  "m_v4 (applyStatus st mon) = m_v4 mon" "m_v6 (applyStatus st mon) = m_v6 mon"
  "m_label (applyStatus st mon) = m_label mon" "m_ifaceTag (applyStatus st mon) = m_ifaceTag mon"
  "m_lastTickState (applyStatus st mon) = m_lastTickState mon" "m_pid (applyStatus st mon) = m_pid mon"
  "m_iface (applyStatus st mon) = m_iface mon"
  "icons_set (m_tray (applyStatus st mon)) = icons_set (m_tray mon)"
  "last_of (texts_set (m_tray (applyStatus st mon))) = Some st"
  by (auto simp: applyStatus_def Let_def)

lemma applyStatus_shows:
  assumes "render_inv q mon" and "st \<noteq> []" and "st \<noteq> m_label mon"
  shows "render_inv q (applyStatus st mon)" and "last_of (tooltips_set (m_tray (applyStatus st mon))) = Some st"
  using assms by (auto simp: applyStatus_def Let_def render_inv_def distinct_adj_snoc)

lemma renderTray_frame:
  "m_v4 (renderTray q mon) = m_v4 mon" "m_v6 (renderTray q mon) = m_v6 mon"
  "m_label (renderTray q mon) = m_label mon" "m_ifaceTag (renderTray q mon) = m_ifaceTag mon"
  "m_lastTickState (renderTray q mon) = m_lastTickState mon" "m_pid (renderTray q mon) = m_pid mon"
  "m_iface (renderTray q mon) = m_iface mon"
  by (simp_all add: renderTray_def Let_def applyStatus_frame setIcon_frame)

lemma renderTray_shows:
  assumes "render_inv q mon"
  shows "render_inv q (renderTray q mon)" and "shows_state q (renderTray q mon)"
proof -
  let ?m1 = "setIcon q (colour_of (m_v4 mon) (m_v6 mon)) (glyph_of (m_v4 mon) (m_v6 mon)) mon"
  let ?st = "status_of (m_label mon) (m_v4 mon) (m_v6 mon)"
  have r: "renderTray q mon = applyStatus ?st ?m1"
    by (simp add: renderTray_def Let_def colour_of_def glyph_of_def status_of_def setIcon_frame)
  have g: "glyph_of (m_v4 mon) (m_v6 mon) \<noteq> [CHR 0x01]" by (simp add: glyph_of_def glyphFor_not_sentinel)
  note s1 = setIcon_shows [OF assms g]
  have st: "?st \<noteq> []" "?st \<noteq> m_label ?m1" using status_longer by (simp_all add: setIcon_frame)
  note a1 = applyStatus_shows [OF s1(1) st]
  show "render_inv q (renderTray q mon)" unfolding r by (rule a1(1))
  show "shows_state q (renderTray q mon)"
    unfolding r shows_state_def icon_of_def using a1(2) s1(2) by (simp add: applyStatus_frame setIcon_frame)
qed

subsection \<open>The invariant\<close>

definition monitor_inv :: "qt \<Rightarrow> monitor \<Rightarrow> bool" where
  "monitor_inv q mon \<longleftrightarrow>
     render_inv q mon \<and> shows_state q mon \<and> track_inv (m_v4 mon) \<and> track_inv (m_v6 mon) \<and>
     (m_lastTickState mon = (-1, False, False, -1, False, False) \<or>
      m_lastTickState mon = tick_state_of (m_v4 mon) (m_v6 mon))"

text \<open>The tray shows only what the tick state and the (constant) configured flags say.\<close>

lemma view_cong:
  assumes "tick_state_of v4' v6' = tick_state_of v4 v6"
    and "configured v4' = configured v4" and "configured v6' = configured v6"
  shows "colour_of v4' v6' = colour_of v4 v6" and "glyph_of v4' v6' = glyph_of v4 v6"
    and "status_of label v4' v6' = status_of label v4 v6"
proof -
  have s: "stateOf v4' = stateOf v4" "stateOf v6' = stateOf v6" "severityOf v4' = severityOf v4"
    "severityOf v6' = severityOf v6"
    using assms by (simp_all add: tick_state_of_def stateOf_def severityOf_def)
  have "protoStatusText tag st v4' = protoStatusText tag st v4" "protoStatusText tag st v6' = protoStatusText tag st v6" for tag st
    using assms(1) by (simp_all add: tick_state_of_def protoStatusText_def)
  with s show "colour_of v4' v6' = colour_of v4 v6" and "glyph_of v4' v6' = glyph_of v4 v6"
    and "status_of label v4' v6' = status_of label v4 v6"
    by (simp_all add: colour_of_def glyph_of_def status_of_def statusTextFor_def)
qed

lemma shows_state_cong:
  assumes "tick_state_of v4' v6' = tick_state_of (m_v4 mon) (m_v6 mon)"
    and "configured v4' = configured (m_v4 mon)" and "configured v6' = configured (m_v6 mon)"
    and "shows_state q mon"
  shows "shows_state q (mon\<lparr>m_v4 := v4', m_seq4 := a, m_v6 := v6', m_seq6 := b\<rparr>)"
  using assms(4) view_cong [OF assms(1-3)] by (simp add: shows_state_def icon_of_def)

lemma render_inv_tracks [simp]:
  "render_inv q (mon\<lparr>m_v4 := v4, m_seq4 := a, m_v6 := v6, m_seq6 := b\<rparr>) = render_inv q mon"
  "render_inv q (mon\<lparr>m_lastTickState := s\<rparr>) = render_inv q mon"
  by (simp_all add: render_inv_def)

lemma monitor_tick_parts:
  assumes "monitor_tick q os junk (mon, w) = Some (mon', w')"
  obtains v4 s4 w1 v6 s6 where
    "tickProto inet4 os junk (m_iface mon) (m_pid mon) (m_v4 mon, m_seq4 mon, w) = Some (v4, s4, w1)"
    "tickProto inet6 os junk (m_iface mon) (m_pid mon) (m_v6 mon, m_seq6 mon, w1) = Some (v6, s6, w')"
    "mon' = (let mon1 = mon\<lparr>m_v4 := v4, m_seq4 := s4, m_v6 := v6, m_seq6 := s6\<rparr>; state = tick_state_of v4 v6
             in if state \<noteq> m_lastTickState mon then renderTray q (mon1\<lparr>m_lastTickState := state\<rparr>) else mon1)"
proof -
  from assms obtain v4 s4 w1 v6 s6 where
    t4: "tickProto inet4 os junk (m_iface mon) (m_pid mon) (m_v4 mon, m_seq4 mon, w) = Some (v4, s4, w1)"
    and t6: "tickProto inet6 os junk (m_iface mon) (m_pid mon) (m_v6 mon, m_seq6 mon, w1) = Some (v6, s6, w')"
    by (auto simp: monitor_tick_def tickV4_eq tickV6_eq Let_def)
  have "mon' = (let mon1 = mon\<lparr>m_v4 := v4, m_seq4 := s4, m_v6 := v6, m_seq6 := s6\<rparr>; state = tick_state_of v4 v6
      in if state \<noteq> m_lastTickState mon then renderTray q (mon1\<lparr>m_lastTickState := state\<rparr>) else mon1)"
    using assms t4 t6 by (cases "tick_state_of v4 v6 = m_lastTickState mon")
      (auto simp: monitor_tick_def tickV4_eq tickV6_eq simp del: bind_Some_iff)
  with t4 t6 show thesis by (rule that)
qed

lemma monitor_tick_inv:
  assumes inv: "monitor_inv q mon" and tick: "monitor_tick q os junk (mon, w) = Some (mon', w')"
  shows "monitor_inv q mon'"
proof -
  from monitor_tick_parts [OF tick] obtain v4 s4 w1 v6 s6 where
    t4: "tickProto inet4 os junk (m_iface mon) (m_pid mon) (m_v4 mon, m_seq4 mon, w) = Some (v4, s4, w1)"
    and t6: "tickProto inet6 os junk (m_iface mon) (m_pid mon) (m_v6 mon, m_seq6 mon, w1) = Some (v6, s6, w')"
    and mon': "mon' = (let mon1 = mon\<lparr>m_v4 := v4, m_seq4 := s4, m_v6 := v6, m_seq6 := s6\<rparr>; state = tick_state_of v4 v6
             in if state \<noteq> m_lastTickState mon then renderTray q (mon1\<lparr>m_lastTickState := state\<rparr>) else mon1)" .
  let ?m1 = "mon\<lparr>m_v4 := v4, m_seq4 := s4, m_v6 := v6, m_seq6 := s6\<rparr>"
  have i: "track_inv v4" "track_inv v6" using tick_inv(1) [OF t4] tick_inv(1) [OF t6] inv by (simp_all add: monitor_inv_def)
  have c: "configured v4 = configured (m_v4 mon)" "configured v6 = configured (m_v6 mon)"
    using tick_inv(2) [OF t4] tick_inv(2) [OF t6] by (simp_all add: settings_kept_def)
  have r: "render_inv q ?m1" using inv by (simp add: monitor_inv_def)
  show ?thesis
  proof (cases "tick_state_of v4 v6 = m_lastTickState mon")
    case True
    have "failStreak v4 \<noteq> -1" using i(1) by (auto simp: track_inv_def)
    then have "m_lastTickState mon = tick_state_of (m_v4 mon) (m_v6 mon)"
      using inv True by (auto simp: monitor_inv_def tick_state_of_def)
    with True have "tick_state_of v4 v6 = tick_state_of (m_v4 mon) (m_v6 mon)" by simp
    from shows_state_cong [OF this c] inv have "shows_state q ?m1" by (simp add: monitor_inv_def)
    with True i r show ?thesis by (simp add: mon' monitor_inv_def)
  next
    case False
    let ?m2 = "?m1\<lparr>m_lastTickState := tick_state_of v4 v6\<rparr>"
    have "render_inv q ?m2" using r by simp
    from renderTray_shows [OF this] False i show ?thesis
      by (simp add: mon' monitor_inv_def renderTray_frame)
  qed
qed

text \<open>The calls of a tick: none if nothing it shows has changed, and at most one of each kind.\<close>

lemma renderTray_calls: "\<exists>cs. m_tray (renderTray q mon) = m_tray mon @ cs \<and> length cs \<le> 3"
  by (auto simp: renderTray_def setIcon_def applyStatus_def Let_def split: prod.split)

lemma monitor_tick_calls:
  assumes "monitor_tick q os junk (mon, w) = Some (mon', w')"
  shows "\<exists>cs. m_tray mon' = m_tray mon @ cs \<and> length cs \<le> 3 \<and>
    (tick_state_of (m_v4 mon') (m_v6 mon') = m_lastTickState mon \<longrightarrow> cs = [])"
proof -
  from monitor_tick_parts [OF assms] obtain v4 s4 v6 s6 where
    mon': "mon' = (let mon1 = mon\<lparr>m_v4 := v4, m_seq4 := s4, m_v6 := v6, m_seq6 := s6\<rparr>; state = tick_state_of v4 v6
             in if state \<noteq> m_lastTickState mon then renderTray q (mon1\<lparr>m_lastTickState := state\<rparr>) else mon1)" .
  show ?thesis
    using renderTray_calls [of q "mon\<lparr>m_v4 := v4, m_seq4 := s4, m_v6 := v6, m_seq6 := s6,
      m_lastTickState := tick_state_of v4 v6\<rparr>"]
    by (auto simp: mon' Let_def renderTray_frame)
qed

subsection \<open>The constructed monitor\<close>

lemma resolveInitialTargets_frame:
  assumes "resolveInitialTargets os target target6 (mon, w) = (mon', w')"
  shows "mon' = mon\<lparr>m_v4 := m_v4 mon', m_v6 := m_v6 mon'\<rparr>"
    and "initial_track (m_v4 mon) \<Longrightarrow> initial_track (m_v4 mon')"
    and "initial_track (m_v6 mon) \<Longrightarrow> initial_track (m_v6 mon')"
  using assms
  by (auto simp: resolveInitialTargets_def initial_track_def Let_def split: prod.splits option.splits if_splits)

lemma applyGatewayOverride_facts:
  "initial_track (applyGatewayOverride t g) = initial_track t"
  "gatewayMode (applyGatewayOverride t g) = go_mode (GatewayOverride g)"
  "configured (applyGatewayOverride t g) = configured t"
  by (auto simp: applyGatewayOverride_def initial_track_def Let_def)

lemma openSocket_facts:
  assumes "openSocket fam os iface t w = (t', w')"
  shows "initial_track t' = initial_track t" "gatewayMode t' = gatewayMode t" "configured t' = configured t"
    "failStreak t' = failStreak t" "hasLocalAddress t' = hasLocalAddress t" "gatewayReachable t' = gatewayReachable t"
proof -
  obtain fd where "t' = t\<lparr>sock := fd\<rparr>" using openSocket_frame [OF assms] by metis
  then show "initial_track t' = initial_track t" "gatewayMode t' = gatewayMode t" "configured t' = configured t"
    "failStreak t' = failStreak t" "hasLocalAddress t' = hasLocalAddress t" "gatewayReachable t' = gatewayReachable t"
    by (simp_all add: initial_track_def)
qed

text \<open>The sockets of the configured protocols are opened, and nothing else changes.\<close>

lemma openSocket4_if:
  assumes "(if configured (m_v4 mon) then openSocket4 os (mon, w) else (mon, w)) = (mon', w')"
  obtains fd where "mon' = mon\<lparr>m_v4 := (m_v4 mon)\<lparr>sock := fd\<rparr>\<rparr>"
proof (cases "configured (m_v4 mon)")
  case True
  obtain t w1 where o: "openSocket inet4 os (m_iface mon) (m_v4 mon) w = (t, w1)" by (rule prod.exhaust)
  with assms True have "mon' = mon\<lparr>m_v4 := t\<rparr>" by (simp add: openSocket4_eq)
  moreover obtain fd where "t = (m_v4 mon)\<lparr>sock := fd\<rparr>" using openSocket_frame [OF o] by metis
  ultimately show thesis using that by blast
next
  case False
  with assms that [of "sock (m_v4 mon)"] show thesis by simp
qed

lemma openSocket6_if:
  assumes "(if configured (m_v6 mon) then openSocket6 os (mon, w) else (mon, w)) = (mon', w')"
  obtains fd where "mon' = mon\<lparr>m_v6 := (m_v6 mon)\<lparr>sock := fd\<rparr>\<rparr>"
proof (cases "configured (m_v6 mon)")
  case True
  obtain t w1 where o: "openSocket inet6 os (m_iface mon) (m_v6 mon) w = (t, w1)" by (rule prod.exhaust)
  with assms True have "mon' = mon\<lparr>m_v6 := t\<rparr>" by (simp add: openSocket6_eq)
  moreover obtain fd where "t = (m_v6 mon)\<lparr>sock := fd\<rparr>" using openSocket_frame [OF o] by metis
  ultimately show thesis using that by blast
next
  case False
  with assms that [of "sock (m_v6 mon)"] show thesis by simp
qed

text \<open>What the tracks of a new monitor are made of: the resolved targets, the overrides and two sockets.\<close>

lemma newPingMonitor_resolved:
  assumes "newPingMonitor q os iface target target6 label g4 g6 w = (mon, w')"
  obtains m1 w1 x y where
    "resolveInitialTargets os target target6
       ((initial_monitor iface label)\<lparr>m_pid := of_nat (sys_getpid os w), m_ifaceTag := shortIfaceTag q iface\<rparr>, w) = (m1, w1)"
    "m_v4 mon = (applyGatewayOverride (m_v4 m1) g4)\<lparr>sock := x\<rparr>"
    "m_v6 mon = (applyGatewayOverride (m_v6 m1) g6)\<lparr>sock := y\<rparr>"
proof -
  let ?i = "(initial_monitor iface label)\<lparr>m_pid := of_nat (sys_getpid os w), m_ifaceTag := shortIfaceTag q iface\<rparr>"
  obtain m1 w1 where r: "resolveInitialTargets os target target6 (?i, w) = (m1, w1)" by (rule prod.exhaust)
  define m2 where "m2 = setupTray q (m1\<lparr>m_v4 := applyGatewayOverride (m_v4 m1) g4,
      m_v6 := applyGatewayOverride (m_v6 (m1\<lparr>m_v4 := applyGatewayOverride (m_v4 m1) g4\<rparr>)) g6\<rparr>)"
  have v: "m_v4 m2 = applyGatewayOverride (m_v4 m1) g4" "m_v6 m2 = applyGatewayOverride (m_v6 m1) g6"
    by (simp_all add: m2_def setupTray_def Let_def renderTray_frame)
  obtain m3 w3 where o4: "(if configured (m_v4 m2) then openSocket4 os (m2, w1) else (m2, w1)) = (m3, w3)" by (rule prod.exhaust)
  have i: "m_iface ((initial_monitor iface label)\<lparr>m_pid := p\<rparr>) = iface" for p by (simp add: initial_monitor_def)
  have o6: "(if configured (m_v6 m3) then openSocket6 os (m3, w3) else (m3, w3)) = (mon, w')"
    using assms o4 by (simp only: newPingMonitor_def Let_def r i prod.case m2_def [symmetric] o4)
  obtain x where m3: "m3 = m2\<lparr>m_v4 := (m_v4 m2)\<lparr>sock := x\<rparr>\<rparr>" by (rule openSocket4_if [OF o4])
  obtain y where "mon = m3\<lparr>m_v6 := (m_v6 m3)\<lparr>sock := y\<rparr>\<rparr>" by (rule openSocket6_if [OF o6])
  with m3 v have "m_v4 mon = (applyGatewayOverride (m_v4 m1) g4)\<lparr>sock := x\<rparr>"
    "m_v6 mon = (applyGatewayOverride (m_v6 m1) g6)\<lparr>sock := y\<rparr>" by simp_all
  with r show thesis by (rule that)
qed

lemma newPingMonitor_parts:
  assumes "newPingMonitor q os iface target target6 label g4 g6 w = (mon, w')"
  obtains m0 where "m_v4 mon = (m_v4 m0)\<lparr>sock := sock (m_v4 mon)\<rparr>" "m_v6 mon = (m_v6 m0)\<lparr>sock := sock (m_v6 mon)\<rparr>"
    "mon = (setupTray q m0)\<lparr>m_v4 := m_v4 mon, m_v6 := m_v6 mon\<rparr>"
    "m0 = (initial_monitor iface label)\<lparr>m_pid := of_nat (sys_getpid os w), m_ifaceTag := shortIfaceTag q iface,
       m_v4 := m_v4 m0, m_v6 := m_v6 m0\<rparr>"
    "initial_track (m_v4 m0)" "initial_track (m_v6 m0)"
    "gatewayMode (m_v4 m0) = go_mode (GatewayOverride g4)" "gatewayMode (m_v6 m0) = go_mode (GatewayOverride g6)"
proof -
  let ?i = "(initial_monitor iface label)\<lparr>m_pid := of_nat (sys_getpid os w), m_ifaceTag := shortIfaceTag q iface\<rparr>"
  obtain m1 w1 where r: "resolveInitialTargets os target target6 (?i, w) = (m1, w1)" by fastforce
  define m0 where "m0 = m1\<lparr>m_v4 := applyGatewayOverride (m_v4 m1) g4, m_v6 := applyGatewayOverride (m_v6 m1) g6\<rparr>"
  have i: "initial_track (m_v4 ?i)" "initial_track (m_v6 ?i)"
    by (simp_all add: initial_monitor_def new_track_def initial_track_def)
  note f = resolveInitialTargets_frame [OF r]
  obtain a b where m1: "m1 = ?i\<lparr>m_v4 := a, m_v6 := b\<rparr>" using f(1) by metis
  have m0: "m0 = ?i\<lparr>m_v4 := m_v4 m0, m_v6 := m_v6 m0\<rparr>" by (simp add: m0_def m1)
  have t0: "initial_track (m_v4 m0)" "initial_track (m_v6 m0)"
    "gatewayMode (m_v4 m0) = go_mode (GatewayOverride g4)" "gatewayMode (m_v6 m0) = go_mode (GatewayOverride g6)"
    using f(2) [OF i(1)] f(3) [OF i(2)] by (simp_all add: m0_def applyGatewayOverride_facts)
  let ?s = "setupTray q m0"
  have sv: "m_v4 ?s = m_v4 m0" "m_v6 ?s = m_v6 m0" by (simp_all add: setupTray_def Let_def renderTray_frame)
  have run: "(let (mon, w) = (if configured (m_v4 ?s) then openSocket4 os (?s, w1) else (?s, w1))
      in if configured (m_v6 mon) then openSocket6 os (mon, w) else (mon, w)) = (mon, w')"
  proof -
    have "m_iface ((initial_monitor iface label)\<lparr>m_pid := p\<rparr>) = iface" for p by (simp add: initial_monitor_def)
    moreover have "m1\<lparr>m_v4 := applyGatewayOverride (m_v4 m1) g4,
        m_v6 := applyGatewayOverride (m_v6 (m1\<lparr>m_v4 := applyGatewayOverride (m_v4 m1) g4\<rparr>)) g6\<rparr> = m0"
      by (simp add: m0_def)
    ultimately show ?thesis using assms by (simp only: newPingMonitor_def Let_def r prod.case)
  qed
  obtain m2 w2 where o4: "(if configured (m_v4 ?s) then openSocket4 os (?s, w1) else (?s, w1)) = (m2, w2)" by fastforce
  have o6: "(if configured (m_v6 m2) then openSocket6 os (m2, w2) else (m2, w2)) = (mon, w')"
    using run unfolding o4 by simp
  obtain x where m2: "m2 = ?s\<lparr>m_v4 := (m_v4 ?s)\<lparr>sock := x\<rparr>\<rparr>" by (rule openSocket4_if [OF o4])
  obtain y where mon: "mon = m2\<lparr>m_v6 := (m_v6 m2)\<lparr>sock := y\<rparr>\<rparr>" by (rule openSocket6_if [OF o6])
  show thesis
  proof (rule that)
    show "m_v4 mon = (m_v4 m0)\<lparr>sock := sock (m_v4 mon)\<rparr>" "m_v6 mon = (m_v6 m0)\<lparr>sock := sock (m_v6 mon)\<rparr>"
      by (simp_all add: mon m2 sv)
    show "mon = ?s\<lparr>m_v4 := m_v4 mon, m_v6 := m_v6 mon\<rparr>" by (simp add: mon m2)
  qed (use m0 t0 in simp_all)
qed

text \<open>The keys under which icons can be cached: red and yellow icons have no glyph.\<close>

definition icon_keys :: "(int \<times> string) set" where
  "icon_keys = {(0, []), (0, ''4''), (0, ''6''), (0, ''4/6''), (1, ''4''), (1, ''6''), (1, ''4/6''), (2, []), (3, [])}"

lemma state_keys:
  assumes "track_inv v4" and "track_inv v6"
  shows "(severity_code (colour_of v4 v6), glyph_of v4 v6) \<in> icon_keys"
  by (rule track_view [OF assms(1)]; rule track_view [OF assms(2)];
      simp add: colour_of_def glyph_of_def worstSeverityOf_def glyphFor_def icon_keys_def)

lemma setIcon_cache:
  "m_iconCache (setIcon q s g mon) = m_iconCache mon \<or>
   m_iconCache (setIcon q s g mon) = snd (iconFor (qt_ink q) (m_ifaceTag mon) s g (m_iconCache mon))"
  by (simp add: setIcon_def split: prod.split)

lemma renderTray_cache:
  assumes "cache_inv (qt_ink q) (m_ifaceTag mon) (m_iconCache mon)" and "dom (m_iconCache mon) \<subseteq> icon_keys"
    and "track_inv (m_v4 mon)" and "track_inv (m_v6 mon)"
  shows "dom (m_iconCache (renderTray q mon)) \<subseteq> icon_keys"
proof -
  let ?m1 = "setIcon q (colour_of (m_v4 mon) (m_v6 mon)) (glyph_of (m_v4 mon) (m_v6 mon)) mon"
  have "m_iconCache (renderTray q mon) = m_iconCache ?m1"
    by (simp add: renderTray_def applyStatus_def Let_def colour_of_def glyph_of_def)
  moreover have "dom (m_iconCache ?m1) \<subseteq> icon_keys"
    using setIcon_cache [of q "colour_of (m_v4 mon) (m_v6 mon)" "glyph_of (m_v4 mon) (m_v6 mon)" mon]
      iconFor_paints(3) [OF assms(1)] state_keys [OF assms(3,4)] assms(2)
    by (elim disjE) (simp_all only: insert_subset simp_thms)
  ultimately show ?thesis by simp
qed

lemma setupTray_shows:
  assumes "m_tray m0 = []" and "m_iconCache m0 = Map.empty" and "m_currentGlyph m0 = [CHR 0x01]"
    and "m_currentTooltip m0 = []" and "track_inv (m_v4 m0)" and "track_inv (m_v6 m0)"
  shows "render_inv q (setupTray q m0)" and "shows_state q (setupTray q m0)"
    and "dom (m_iconCache (setupTray q m0)) \<subseteq> icon_keys"
    and "m_v4 (setupTray q m0) = m_v4 m0" and "m_v6 (setupTray q m0) = m_v6 m0"
    and "m_lastTickState (setupTray q m0) = m_lastTickState m0"
proof -
  let ?m1 = "m0\<lparr>m_tray := [New_tray_icon, Add_action (m_label m0 @ '': starting...''), Set_action_enabled False,
    Add_separator, Add_quit_action ''Quit'', Set_context_menu, Set_tool_tip (m_label m0)]\<rparr>"
  have s: "setupTray q m0 = (renderTray q ?m1)\<lparr>m_tray := m_tray (renderTray q ?m1) @ [Show_tray]\<rparr>"
    using assms(1) by (simp add: setupTray_def Let_def)
  have r: "render_inv q ?m1" using assms by (simp add: render_inv_def)
  note t = renderTray_shows [OF r]
  show "render_inv q (setupTray q m0)" using t(1) unfolding s by (simp add: render_inv_def)
  show "shows_state q (setupTray q m0)" using t(2) unfolding s by (simp add: shows_state_def)
  show "dom (m_iconCache (setupTray q m0)) \<subseteq> icon_keys"
    using renderTray_cache [of q ?m1] assms unfolding s by simp
  show "m_v4 (setupTray q m0) = m_v4 m0" "m_v6 (setupTray q m0) = m_v6 m0"
    "m_lastTickState (setupTray q m0) = m_lastTickState m0" by (simp_all add: s renderTray_frame)
qed

lemma shows_state_cong2:
  assumes "tick_state_of v4' v6' = tick_state_of (m_v4 mon) (m_v6 mon)"
    and "configured v4' = configured (m_v4 mon)" and "configured v6' = configured (m_v6 mon)" and "shows_state q mon"
  shows "shows_state q (mon\<lparr>m_v4 := v4', m_v6 := v6'\<rparr>)"
  using assms(4) view_cong [OF assms(1-3)] by (simp add: shows_state_def icon_of_def)

lemma newPingMonitor_inv:
  assumes "newPingMonitor q os iface target target6 label g4 g6 w = (mon, w')"
  shows "monitor_inv q mon" and "dom (m_iconCache mon) \<subseteq> icon_keys"
    and "initial_track (m_v4 mon)" and "initial_track (m_v6 mon)"
    and "gatewayMode (m_v4 mon) = go_mode (GatewayOverride g4)" and "gatewayMode (m_v6 mon) = go_mode (GatewayOverride g6)"
proof -
  from newPingMonitor_parts [OF assms] obtain m0 where
    v4: "m_v4 mon = (m_v4 m0)\<lparr>sock := sock (m_v4 mon)\<rparr>" and v6: "m_v6 mon = (m_v6 m0)\<lparr>sock := sock (m_v6 mon)\<rparr>"
    and mon: "mon = (setupTray q m0)\<lparr>m_v4 := m_v4 mon, m_v6 := m_v6 mon\<rparr>"
    and m0: "m0 = (initial_monitor iface label)\<lparr>m_pid := of_nat (sys_getpid os w), m_ifaceTag := shortIfaceTag q iface,
       m_v4 := m_v4 m0, m_v6 := m_v6 m0\<rparr>"
    and i: "initial_track (m_v4 m0)" "initial_track (m_v6 m0)"
    and g: "gatewayMode (m_v4 m0) = go_mode (GatewayOverride g4)" "gatewayMode (m_v6 m0) = go_mode (GatewayOverride g6)" .
  obtain a b where va: "m_v4 mon = (m_v4 m0)\<lparr>sock := a\<rparr>" and vb: "m_v6 mon = (m_v6 m0)\<lparr>sock := b\<rparr>"
    using v4 v6 by metis
  have f: "m_tray m0 = []" "m_iconCache m0 = Map.empty" "m_currentGlyph m0 = [CHR 0x01]" "m_currentTooltip m0 = []"
    "m_lastTickState m0 = (-1, False, False, -1, False, False)"
    by (subst m0, simp add: initial_monitor_def)+
  note s = setupTray_shows [OF f(1-4) initial_track_inv [OF i(1)] initial_track_inv [OF i(2)], of q]
  show t: "initial_track (m_v4 mon)" "initial_track (m_v6 mon)"
    using i by (simp_all add: va vb initial_track_def)
  show "gatewayMode (m_v4 mon) = go_mode (GatewayOverride g4)" "gatewayMode (m_v6 mon) = go_mode (GatewayOverride g6)"
    using g by (simp_all add: va vb)
  have k: "tick_state_of (m_v4 mon) (m_v6 mon) = tick_state_of (m_v4 (setupTray q m0)) (m_v6 (setupTray q m0))"
    "configured (m_v4 mon) = configured (m_v4 (setupTray q m0))" "configured (m_v6 mon) = configured (m_v6 (setupTray q m0))"
    by (simp_all add: va vb s(4,5) tick_state_of_def)
  have "shows_state q mon" by (subst mon) (rule shows_state_cong2 [OF k s(2)])
  moreover have "render_inv q mon" using s(1) by (subst mon) (simp add: render_inv_def)
  moreover have "m_lastTickState mon = (-1, False, False, -1, False, False)"
    by (subst mon) (simp add: s(6) f(5))
  ultimately show "monitor_inv q mon" using t by (simp add: monitor_inv_def initial_track_inv)
  show "dom (m_iconCache mon) \<subseteq> icon_keys" using s(3) by (subst mon) simp
qed

subsection \<open>Reachable monitors\<close>

text \<open>The world may change in any way between the timer's ticks.\<close>

inductive monitor_reachable :: "qt \<Rightarrow> 'w os \<Rightarrow> ('w \<Rightarrow> buf) \<Rightarrow> monitor \<Rightarrow> bool" for q os junk where
  created: "newPingMonitor q os iface target target6 label g4 g6 w = (mon, w') \<Longrightarrow> monitor_reachable q os junk mon"
| ticked: "monitor_reachable q os junk mon \<Longrightarrow> monitor_tick q os junk (mon, w) = Some (mon', w') \<Longrightarrow>
    monitor_reachable q os junk mon'"

lemma monitor_tick_cache:
  assumes inv: "monitor_inv q mon" and "dom (m_iconCache mon) \<subseteq> icon_keys"
    and tick: "monitor_tick q os junk (mon, w) = Some (mon', w')"
  shows "dom (m_iconCache mon') \<subseteq> icon_keys"
proof -
  from monitor_tick_parts [OF tick] obtain v4 s4 w1 v6 s6 where
    t4: "tickProto inet4 os junk (m_iface mon) (m_pid mon) (m_v4 mon, m_seq4 mon, w) = Some (v4, s4, w1)"
    and t6: "tickProto inet6 os junk (m_iface mon) (m_pid mon) (m_v6 mon, m_seq6 mon, w1) = Some (v6, s6, w')"
    and mon': "mon' = (let mon1 = mon\<lparr>m_v4 := v4, m_seq4 := s4, m_v6 := v6, m_seq6 := s6\<rparr>; state = tick_state_of v4 v6
             in if state \<noteq> m_lastTickState mon then renderTray q (mon1\<lparr>m_lastTickState := state\<rparr>) else mon1)" .
  have "track_inv v4" "track_inv v6" using tick_inv(1) [OF t4] tick_inv(1) [OF t6] inv by (simp_all add: monitor_inv_def)
  with inv assms(2) renderTray_cache [of q "mon\<lparr>m_v4 := v4, m_seq4 := s4, m_v6 := v6, m_seq6 := s6,
      m_lastTickState := tick_state_of v4 v6\<rparr>"]
  show ?thesis by (auto simp: mon' Let_def monitor_inv_def render_inv_def)
qed

lemma monitor_reachable_inv:
  "monitor_reachable q os junk mon \<Longrightarrow> monitor_inv q mon \<and> dom (m_iconCache mon) \<subseteq> icon_keys"
proof (induction rule: monitor_reachable.induct)
  case (created iface target target6 label g4 g6 w mon w')
  with newPingMonitor_inv [OF created] show ?case by simp
next
  case (ticked mon w mon' w')
  with monitor_tick_inv [OF _ ticked.hyps(2)] monitor_tick_cache [OF _ _ ticked.hyps(2)] show ?case by blast
qed

end
