(* ===== verification/Tray_Main.thy ===== *)
theory Tray_Main
  imports Ping_Monitor
begin

section \<open>The tray program (conwatch-tray/main.cpp)\<close>

text \<open>
  \<open>main\<close> of the tray: its arguments, the monitor it creates from them and the states the timer
  brings that monitor to; and what a user can rely on of the icon.
\<close>

subsection \<open>main\<close>

text \<open>
  \<open>qapp\<close> is what \<open>QApplication\<close> leaves of the arguments (it takes away the options it knows).
  \<open>avail\<close> is \<open>isSystemTrayAvailable()\<close>. A \<open>QString\<close> is its UTF-8 bytes, which the conversions from
  \<open>char *\<close> and back keep. The result is the exit status, or the monitor that \<open>app.exec()\<close> runs.
\<close>

definition tray_argsValid :: "string list \<Rightarrow> bool \<Rightarrow> bool" where
  "tray_argsValid argv avail = (if length argv < 3 then False else if \<not> avail then False else True)"

definition tray_main ::
  "qt \<Rightarrow> 'w os \<Rightarrow> (string list \<Rightarrow> string list) \<Rightarrow> bool \<Rightarrow> string list \<Rightarrow> 'w \<Rightarrow> (int + monitor) \<times> 'w" where
  "tray_main q os qapp avail argv w =
     (let argv = qapp argv
      in if \<not> tray_argsValid argv avail then (Inl 1, w)
         else let iface = argv ! 1;
                  target = argv ! 2;
                  target6 = (if 4 \<le> length argv then argv ! 3 else []);
                  label = (if 5 \<le> length argv then argv ! 4 else iface);
                  gatewayIpOverride4 = (if 6 \<le> length argv then argv ! 5 else []);
                  gatewayIpOverride6 = (if 7 \<le> length argv then argv ! 6 else []);
                  (mon, w) = newPingMonitor q os iface target target6 label gatewayIpOverride4 gatewayIpOverride6 w
              in (Inr mon, w))"

text \<open>The monitors a tray started with these arguments can be at; the world changes freely in between.\<close>

inductive tray_runs ::
  "qt \<Rightarrow> 'w os \<Rightarrow> ('w \<Rightarrow> buf) \<Rightarrow> (string list \<Rightarrow> string list) \<Rightarrow> bool \<Rightarrow> string list \<Rightarrow> monitor \<Rightarrow> bool"
  for q os junk qapp avail argv where
  started: "tray_main q os qapp avail argv w = (Inr mon, w') \<Longrightarrow> tray_runs q os junk qapp avail argv mon"
| ticked: "tray_runs q os junk qapp avail argv mon \<Longrightarrow> monitor_tick q os junk (mon, w) = Some (mon', w') \<Longrightarrow>
    tray_runs q os junk qapp avail argv mon'"

lemma tray_main_Inr:
  assumes "tray_main q os qapp avail argv w = (Inr mon, w')"
  shows "\<exists>iface target target6 label g4 g6.
    newPingMonitor q os iface target target6 label g4 g6 w = (mon, w') \<and> 3 \<le> length (qapp argv) \<and>
    iface = qapp argv ! 1 \<and>
    g4 = (if 6 \<le> length (qapp argv) then qapp argv ! 5 else []) \<and>
    g6 = (if 7 \<le> length (qapp argv) then qapp argv ! 6 else [])"
  using assms by (auto simp: tray_main_def tray_argsValid_def Let_def split: prod.splits if_splits)

lemma tray_runs_reachable: "tray_runs q os junk qapp avail argv mon \<Longrightarrow> monitor_reachable q os junk mon"
proof (induction rule: tray_runs.induct)
  case (started w mon w')
  then show ?case using tray_main_Inr monitor_reachable.created by metis
qed (rule monitor_reachable.ticked)

lemma monitor_tick_modes:
  assumes "monitor_tick q os junk (mon, w) = Some (mon', w')"
  shows "gatewayMode (m_v4 mon') = gatewayMode (m_v4 mon)" and "gatewayMode (m_v6 mon') = gatewayMode (m_v6 mon)"
    and "m_iface mon' = m_iface mon" and "m_label mon' = m_label mon" and "m_ifaceTag mon' = m_ifaceTag mon"
proof -
  from monitor_tick_parts [OF assms] obtain v4 s4 w1 v6 s6 where
    t4: "tickProto inet4 os junk (m_iface mon) (m_pid mon) (m_v4 mon, m_seq4 mon, w) = Some (v4, s4, w1)"
    and t6: "tickProto inet6 os junk (m_iface mon) (m_pid mon) (m_v6 mon, m_seq6 mon, w1) = Some (v6, s6, w')"
    and mon': "mon' = (let mon1 = mon\<lparr>m_v4 := v4, m_seq4 := s4, m_v6 := v6, m_seq6 := s6\<rparr>; state = tick_state_of v4 v6
             in if state \<noteq> m_lastTickState mon then renderTray q (mon1\<lparr>m_lastTickState := state\<rparr>) else mon1)" .
  have "gatewayMode v4 = gatewayMode (m_v4 mon)" "gatewayMode v6 = gatewayMode (m_v6 mon)"
    using tick_inv(2) [OF t4] tick_inv(2) [OF t6] by (simp_all add: settings_kept_def)
  then show "gatewayMode (m_v4 mon') = gatewayMode (m_v4 mon)" "gatewayMode (m_v6 mon') = gatewayMode (m_v6 mon)"
    "m_iface mon' = m_iface mon" "m_label mon' = m_label mon" "m_ifaceTag mon' = m_ifaceTag mon"
    by (simp_all add: mon' Let_def renderTray_frame)
qed

lemma tray_runs_modes:
  "tray_runs q os junk qapp avail argv mon \<Longrightarrow> qapp argv = [prog, iface, target, target6, label, g4, g6] \<Longrightarrow>
   gatewayMode (m_v4 mon) = go_mode (GatewayOverride g4) \<and> gatewayMode (m_v6 mon) = go_mode (GatewayOverride g6)"
proof (induction rule: tray_runs.induct)
  case (started w mon w')
  then have "newPingMonitor q os iface target target6 label g4 g6 w = (mon, w')"
    by (auto simp: tray_main_def tray_argsValid_def Let_def split: prod.splits if_splits)
  from newPingMonitor_inv(5,6) [OF this] show ?case by simp
next
  case (ticked mon w mon' w')
  with monitor_tick_modes(1,2) [OF ticked.hyps(2)] show ?case by simp
qed

lemma tray_never_blue:
  assumes "tray_runs q os junk qapp avail argv mon"
    and "qapp argv = [prog, iface, target, target6, label, g4, g6]"
    and "toLower g4 = ''none''" and "toLower g6 = ''none''"
  shows "last_of (icons_set (m_tray mon)) \<noteq> Some (paintIcon (qt_ink q) (m_ifaceTag mon) Blue glyph)"
proof -
  have ne: "g4 \<noteq> []" "g6 \<noteq> []" using assms(3,4) by (auto simp: toLower_def)
  then have m: "gatewayMode (m_v4 mon) = Disabled" "gatewayMode (m_v6 mon) = Disabled"
    using tray_runs_modes [OF assms(1,2)] assms(3,4) by (simp_all add: GatewayOverride_def DisabledSentinel_def)
  have inv: "monitor_inv q mon" using monitor_reachable_inv [OF tray_runs_reachable [OF assms(1)]] by blast
  with m have "\<not> gatewayReachable (m_v4 mon)" "\<not> gatewayReachable (m_v6 mon)"
    by (auto simp: monitor_inv_def track_inv_def)
  then have "severityOf (m_v4 mon) \<noteq> Blue" "severityOf (m_v6 mon) \<noteq> Blue" by (simp_all add: severityOf_def)
  then have "colour_of (m_v4 mon) (m_v6 mon) \<noteq> Blue" by (simp add: colour_of_def worstSeverityOf_def Let_def)
  with inv show ?thesis by (auto simp: monitor_inv_def shows_state_def icon_of_def paintIcon_eq)
qed

text \<open>A tick in which the IPv4 target answers.\<close>

lemma tickProto_answered:
  assumes "tickProto fam os junk iface pid (t, seq, w) = Some (t', seq', w')" and "configured t" and "hasLocalAddress t"
    and "ping fam os junk pid (targetIp t) t seq w = Some (True, seq1, w1)"
  shows "t' = t\<lparr>failStreak := 0, gatewayReachable := False\<rparr>"
  using assms(1)
proof (cases rule: tickProto_cases)
  case idle
  with maybeRecheck_frame(2) [OF idle(1) assms(3)] assms(2,3) show ?thesis by simp
next
  case (reply t1 w1')
  with maybeRecheck_frame(2) [OF reply(1) assms(3)] show ?thesis by simp
next
  case (lost t1 w1' seq2 w2 t3 w3)
  with maybeRecheck_frame(2) [OF lost(1) assms(3)] assms(4) show ?thesis by simp
qed

subsection \<open>Properties\<close>

text \<open>The tray never shows anything stale: in every state the monitor can reach, the icon last set
  is the one of the two protocols' present state, and the status entry and the tool tip last set
  are their present status text, although a tick touches the tray only when one of six fields has
  changed and the icon is taken from a cache.\<close>

lemma tray_shows_state:
  assumes "monitor_reachable q os junk mon"
  shows "last_of (icons_set (m_tray mon)) =
      Some (paintIcon (qt_ink q) (m_ifaceTag mon) (colour_of (m_v4 mon) (m_v6 mon)) (glyph_of (m_v4 mon) (m_v6 mon))) \<and>
    last_of (texts_set (m_tray mon)) = Some (status_of (m_label mon) (m_v4 mon) (m_v6 mon)) \<and>
    last_of (tooltips_set (m_tray mon)) = Some (status_of (m_label mon) (m_v4 mon) (m_v6 mon))"
  using monitor_reachable_inv [OF assms] by (simp add: monitor_inv_def shows_state_def icon_of_def)

text \<open>ASCII letters and digits, and a font whose glyphs are squares.\<close>

definition ascii_qt :: qt where
  "ascii_qt = \<lparr>qt_isLetter = (\<lambda>c. c \<in> set ''abcdefghijklmnopqrstuvwxyz''), qt_isDigit = (\<lambda>c. c \<in> set ''0123456789''),
     qt_ink = (\<lambda>px s. (0, - px, px, px))\<rparr>"

definition idle_monitor :: monitor where
  "idle_monitor = fst (newPingMonitor ascii_qt (idle_os :: unit os) ''wlan0'' ''1.1.1.1'' [] ''WiFi'' ''none'' ''none'' ())"

lemma idle_monitor_created:
  "newPingMonitor ascii_qt (idle_os :: unit os) ''wlan0'' ''1.1.1.1'' [] ''WiFi'' ''none'' ''none'' () = (idle_monitor, ())"
  by (simp add: idle_monitor_def prod_eq_iff)

lemma tray_shows_state_witness:
  "last_of (texts_set (m_tray idle_monitor)) =
     Some (status_of (m_label idle_monitor) (m_v4 idle_monitor) (m_v6 idle_monitor))"
  using tray_shows_state [OF monitor_reachable.created [OF idle_monitor_created]] by simp

text \<open>C29: The tray is touched sparingly: a tick makes no call on it when the six fields that it compares are as
  they were, and at most three otherwise; the icon and the tool tip are never set to what they already
  are; and every icon the tray has been given is kept in the cache, which never holds more than nine.\<close>

theorem tray_calls_needed:
  assumes "monitor_reachable q os junk mon"
  shows "distinct_adj (icons_set (m_tray mon)) \<and> distinct_adj (tooltips_set (m_tray mon)) \<and>
    set (icons_set (m_tray mon)) = ran (m_iconCache mon) \<and>
    finite (dom (m_iconCache mon)) \<and> card (dom (m_iconCache mon)) \<le> 9 \<and>
    (\<forall>w mon' w'. monitor_tick q os junk (mon, w) = Some (mon', w') \<longrightarrow>
      (\<exists>cs. m_tray mon' = m_tray mon @ cs \<and> length cs \<le> 3 \<and>
        (tick_state_of (m_v4 mon') (m_v6 mon') = m_lastTickState mon \<longrightarrow> cs = [])))"
proof -
  have inv: "monitor_inv q mon" and d: "dom (m_iconCache mon) \<subseteq> icon_keys"
    using monitor_reachable_inv [OF assms] by blast+
  have f: "finite icon_keys" by (simp add: icon_keys_def)
  have "card icon_keys \<le> 9" by (simp add: icon_keys_def)
  with card_mono [OF f d] finite_subset [OF d f] inv monitor_tick_calls [of q os junk mon] show ?thesis
    by (simp add: monitor_inv_def render_inv_def)
qed

theorem tray_calls_needed_witness:
  "card (dom (m_iconCache idle_monitor)) \<le> 9 \<and> set (icons_set (m_tray idle_monitor)) = ran (m_iconCache idle_monitor)"
  using tray_calls_needed [OF monitor_reachable.created [OF idle_monitor_created]] by simp

text \<open>The tag drawn on the icon: at most three characters, the first two of the letters the
  interface's name starts with and the last of the digits it ends with.\<close>

lemma shortIfaceTag_parts:
  assumes "iface = letters @ rest" and "list_all (qt_isLetter q) letters" and "rest = [] \<or> \<not> qt_isLetter q (hd rest)"
    and "iface = body @ digits" and "list_all (qt_isDigit q) digits" and "body = [] \<or> \<not> qt_isDigit q (last body)"
  shows "shortIfaceTag q iface = take 2 letters @ (if digits = [] then [] else [last digits]) \<and>
    length (shortIfaceTag q iface) \<le> 3"
proof -
  have "takeWhile (qt_isLetter q) iface = letters"
    using assms(1-3) by (cases rest) (auto simp: list_all_iff takeWhile_append)
  moreover have "takeWhile (qt_isDigit q) (rev iface) = rev digits"
    using assms(4-6) by (cases body rule: rev_cases) (auto simp: list_all_iff takeWhile_append)
  moreover have "drop (length digits - 1) digits = (if digits = [] then [] else [last digits])"
    by (cases digits rule: rev_cases) auto
  ultimately show ?thesis by (auto simp: shortIfaceTag_def Let_def)
qed

lemma shortIfaceTag_parts_witness: "shortIfaceTag ascii_qt ''enp196s0f4u1u4'' = ''en4''"
proof -
  have p: "''enp196s0f4u1u4'' = ''enp'' @ ''196s0f4u1u4''" "''enp196s0f4u1u4'' = ''enp196s0f4u1u'' @ ''4''"
    by (simp_all only: append.simps)
  have c: "list_all (qt_isLetter ascii_qt) ''enp''" "\<not> qt_isLetter ascii_qt (hd ''196s0f4u1u4'')"
    "list_all (qt_isDigit ascii_qt) ''4''" "\<not> qt_isDigit ascii_qt (last ''enp196s0f4u1u'')"
    unfolding ascii_qt_def by code_simp+
  from shortIfaceTag_parts [OF p(1) c(1) disjI2 [OF c(2)] p(2) c(3) disjI2 [OF c(4)]] show ?thesis by simp
qed

text \<open>What is pinged: the IPv4 address is the target's, the IPv6 address is the target's when it has
  one and else the one of the additional target; the additional target is looked up only when it is
  needed, and never gives an IPv4 address; a protocol without an address is not monitored.\<close>

lemma initial_targets:
  "resolveInitialTargets os target target6 (initial_monitor iface label, w) =
     (let (r, w1) = resolveTargets os target w;
          (r6, w2) = (if rt_v6 r \<noteq> None \<or> target6 = [] then (no_targets, w1) else resolveTargets os target6 w1);
          track = (\<lambda>a. case a of None \<Rightarrow> new_track | Some ip \<Rightarrow> new_track\<lparr>targetIp := ip, configured := True\<rparr>)
      in ((initial_monitor iface label)\<lparr>m_v4 := track (rt_v4 r), m_v6 := track (or_else (rt_v6 r) (rt_v6 r6))\<rparr>, w2))"
  by (auto simp: resolveInitialTargets_def initial_monitor_def new_track_def no_targets_def or_else_def Let_def
      split: prod.split option.split)

text \<open>Recovery shows at once: whatever the reachable state before, and however long the outage, the tick
  in which the IPv4 target of an addressed interface answers ends with a green icon that names IPv4, and a status text that says it is
  connected.\<close>

lemma answered_ping_is_green:
  assumes "monitor_reachable q os junk mon" and "configured (m_v4 mon)" and "hasLocalAddress (m_v4 mon)"
    and "ping4 os junk (targetIp (m_v4 mon)) (mon, w) = Some (True, mon1, w1)"
    and "monitor_tick q os junk (mon, w) = Some (mon', w')"
  shows "\<exists>glyph rest. glyph \<in> {''4'', ''4/6''} \<and>
    last_of (icons_set (m_tray mon')) = Some (paintIcon (qt_ink q) (m_ifaceTag mon') Green glyph) \<and>
    last_of (texts_set (m_tray mon')) = Some (m_label mon' @ '': v4 connected'' @ rest)"
proof -
  from monitor_tick_parts [OF assms(5)] obtain v4 s4 w2 v6 s6 where
    t4: "tickProto inet4 os junk (m_iface mon) (m_pid mon) (m_v4 mon, m_seq4 mon, w) = Some (v4, s4, w2)"
    and mon': "mon' = (let mon1 = mon\<lparr>m_v4 := v4, m_seq4 := s4, m_v6 := v6, m_seq6 := s6\<rparr>; state = tick_state_of v4 v6
             in if state \<noteq> m_lastTickState mon then renderTray q (mon1\<lparr>m_lastTickState := state\<rparr>) else mon1)" .
  obtain seq1 where "ping inet4 os junk (m_pid mon) (targetIp (m_v4 mon)) (m_v4 mon) (m_seq4 mon) w = Some (True, seq1, w1)"
    using assms(4) by (auto simp: ping4_eq)
  from tickProto_answered [OF t4 assms(2,3) this]
  have v4: "m_v4 mon' = (m_v4 mon)\<lparr>failStreak := 0, gatewayReachable := False\<rparr>"
    by (simp add: mon' Let_def renderTray_frame)
  then have h: "stateOf (m_v4 mon') = Healthy" using assms(2,3) by (simp add: stateOf_def)
  have inv: "monitor_inv q mon'"
    using monitor_tick_inv [OF _ assms(5)] monitor_reachable_inv [OF assms(1)] by blast
  have "colour_of (m_v4 mon') (m_v6 mon') = Green" "glyph_of (m_v4 mon') (m_v6 mon') \<in> {''4'', ''4/6''}"
    by (simp_all add: colour_of_def worstSeverityOf_def glyph_of_def glyphFor_def h Let_def)
  moreover have "\<exists>rest. status_of (m_label mon') (m_v4 mon') (m_v6 mon') = m_label mon' @ '': v4 connected'' @ rest"
    by (auto simp: status_of_def statusTextFor_def protoStatusText_def h Let_def)
  ultimately show ?thesis using inv by (auto simp: monitor_inv_def shows_state_def icon_of_def)
qed

text \<open>A monitor whose IPv6 half is not configured, on the platform of the examples.\<close>

lemma v4_only_tick:
  assumes "m_v6 mon = new_track"
    and "tickProto inet4 os junk (m_iface mon) (m_pid mon) (m_v4 mon, m_seq4 mon, w) = Some (v4, s4, w')"
  shows "\<exists>mon'. monitor_tick q os junk (mon, w) = Some (mon', w') \<and> m_v4 mon' = v4 \<and> m_v6 mon' = new_track \<and>
    m_iface mon' = m_iface mon \<and> m_pid mon' = m_pid mon"
proof -
  have t6: "tickProto inet6 os junk i p (new_track, seq, w') = Some (new_track, seq, w')" for i p seq
    by (simp add: tickProto_def maybeRecheckLocalAddress_def new_track_def)
  show ?thesis
    using assms(1) by (auto simp: monitor_tick_def tickV4_eq tickV6_eq assms(2) t6 Let_def renderTray_frame)
qed

lemma lab_monitor:
  "\<exists>mon w. newPingMonitor ascii_qt lab_os ''wlan0'' ''4tttt'' [] ''WiFi'' [] [] [] = (mon, w) \<and>
     m_v4 mon = new_track\<lparr>targetIp := ''4tttt'', configured := True, sock := 5\<rparr> \<and> m_v6 mon = new_track \<and>
     m_pid mon = 7 \<and> m_iface mon = ''wlan0''"
proof -
  have r: "resolveTargets lab_os ''4tttt'' w = (no_targets\<lparr>rt_v4 := Some ''4tttt''\<rparr>, w)" for w
    by (simp add: resolveTargets_def tryLiteral_def)
  show ?thesis
    by (simp add: newPingMonitor_def resolveInitialTargets_def r no_targets_def initial_monitor_def Let_def
        applyGatewayOverride_def GatewayOverride_def setupTray_def renderTray_frame openSocket4_eq openSocket_def
        new_track_def)
qed

lemma answered_ping_is_green_witness:
  "\<exists>mon mon' glyph. failStreak (m_v4 mon) = 1 \<and>
     monitor_tick ascii_qt lab_os (\<lambda>_ _. 0) (mon, [Some lab_reply]) = Some (mon', []) \<and>
     last_of (icons_set (m_tray mon')) = Some (paintIcon (qt_ink ascii_qt) (m_ifaceTag mon') Green glyph)"
proof -
  let ?j = "\<lambda>_ _. 0"
  let ?t = "new_track\<lparr>targetIp := ''4tttt'', configured := True, sock := 5\<rparr>"
  let ?t1 = "?t\<lparr>failStreak := 1, hasLocalAddress := True, recheckTicksLeft := 10\<rparr>"
  have t1: "tickProto inet4 lab_os ?j ''wlan0'' 7 (?t, seq, [None]) = Some (?t1, seq + 1, [])" for seq
    by (simp add: tickProto_def maybeRecheckLocalAddress_def new_track_def lab_ping
      Let_def ifaceHasAddress_def matchesIfaceAddress_def inet4_def [THEN arg_cong [of _ _ fam_af]])
  have t2: "\<exists>v4 s4. tickProto inet4 lab_os ?j ''wlan0'' 7 (?t1, seq, [Some lab_reply]) = Some (v4, s4, [])" for seq
    by (simp add: tickProto_def maybeRecheckLocalAddress_def new_track_def lab_ping)
  from lab_monitor obtain mon0 w where
    n: "newPingMonitor ascii_qt lab_os ''wlan0'' ''4tttt'' [] ''WiFi'' [] [] [] = (mon0, w)"
    and m0: "m_v4 mon0 = ?t" "m_v6 mon0 = new_track" "m_pid mon0 = 7" "m_iface mon0 = ''wlan0''" by blast
  from v4_only_tick [OF m0(2), unfolded m0, OF t1, of ascii_qt] obtain mon1 where
    r1: "monitor_tick ascii_qt lab_os ?j (mon0, [None]) = Some (mon1, [])"
    and m1: "m_v4 mon1 = ?t1" "m_v6 mon1 = new_track" "m_iface mon1 = ''wlan0''" "m_pid mon1 = 7" by blast
  from t2 obtain v4 s4 where
    "tickProto inet4 lab_os ?j ''wlan0'' 7 (?t1, m_seq4 mon1, [Some lab_reply]) = Some (v4, s4, [])" by blast
  from v4_only_tick [OF m1(2), unfolded m1, OF this, of ascii_qt] obtain mon2 where
    r2: "monitor_tick ascii_qt lab_os ?j (mon1, [Some lab_reply]) = Some (mon2, [])" by blast
  have R: "monitor_reachable ascii_qt lab_os ?j mon1"
    by (rule monitor_reachable.ticked [OF monitor_reachable.created [OF n] r1])
  have p: "ping4 lab_os ?j (targetIp (m_v4 mon1)) (mon1, [Some lab_reply]) = Some (True, mon1\<lparr>m_seq4 := m_seq4 mon1 + 1\<rparr>, [])"
    by (simp add: ping4_eq m1 lab_ping)
  have "configured (m_v4 mon1)" "hasLocalAddress (m_v4 mon1)" by (simp_all add: m1)
  from answered_ping_is_green [OF R this p r2] obtain glyph where
    "last_of (icons_set (m_tray mon2)) = Some (paintIcon (qt_ink ascii_qt) (m_ifaceTag mon2) Green glyph)" by blast
  moreover have "failStreak (m_v4 mon1) = 1" by (simp add: m1)
  ultimately show ?thesis using r2 by blast
qed

end
