(* ===== verification/Tray_Descriptors.thy ===== *)
theory Tray_Descriptors
  imports Tray_Main
begin

section \<open>Descriptors of the tray program\<close>

text \<open>
  The monitor lives as long as its interface is up and makes a new socket at every tenth loss, and
  one more for the lookup of a gateway. What it holds open is the subject here: at any time its own
  (at most two) sockets and nothing else.
\<close>

subsection \<open>The platform's side\<close>

text \<open>
  \<open>fds w\<close> are the descriptors the process has open: \<open>socket\<close> gives one that was not open, \<open>close\<close>
  takes one away, and no other call of the program changes them on return.
\<close>

definition fd_laws :: "'w os \<Rightarrow> ('w \<Rightarrow> int set) \<Rightarrow> bool" where
  "fd_laws os fds \<longleftrightarrow>
     (\<forall>d t p w fd w'. sys_socket os d t p w = (fd, w') \<longrightarrow>
        (if fd < 0 then fds w' = fds w else fd \<notin> fds w \<and> fds w' = insert fd (fds w))) \<and>
     (\<forall>fd w. fds (sys_close os fd w) = fds w - {fd}) \<and>
     (\<forall>fd i w. fds (snd (sys_bindtodevice os fd i w)) = fds w) \<and>
     (\<forall>fd tv w. fds (snd (sys_rcvtimeo os fd tv w)) = fds w) \<and>
     (\<forall>fd bs a w. fds (snd (sys_sendto os fd bs a w)) = fds w) \<and>
     (\<forall>fd bs w. fds (snd (sys_send os fd bs w)) = fds w) \<and>
     (\<forall>fd dw w. fds (snd (sys_recv os fd dw w)) = fds w) \<and>
     (\<forall>i w. fds (snd (sys_if_nametoindex os i w)) = fds w) \<and>
     (\<forall>w. fds (snd (sys_getifaddrs os w)) = fds w) \<and>
     (\<forall>h w. fds (snd (sys_getaddrinfo os h w)) = fds w)"

lemma fd_laws_D:
  assumes "fd_laws os fds"
  shows "sys_socket os d t p w = (fd, w') \<Longrightarrow> fd < 0 \<Longrightarrow> fds w' = fds w"
    and "sys_socket os d t p w = (fd, w') \<Longrightarrow> \<not> fd < 0 \<Longrightarrow> fd \<notin> fds w \<and> fds w' = insert fd (fds w)"
    and "fds (sys_close os fd w) = fds w - {fd}"
    and "sys_bindtodevice os fd i w = (n, w') \<Longrightarrow> fds w' = fds w"
    and "sys_rcvtimeo os fd tv w = (n, w') \<Longrightarrow> fds w' = fds w"
    and "sys_sendto os fd bs a w = (n, w') \<Longrightarrow> fds w' = fds w"
    and "sys_send os fd bs w = (n, w') \<Longrightarrow> fds w' = fds w"
    and "sys_recv os fd dw w = (x, w') \<Longrightarrow> fds w' = fds w"
    and "sys_if_nametoindex os i w = (k, w') \<Longrightarrow> fds w' = fds w"
    and "sys_getifaddrs os w = (as, w') \<Longrightarrow> fds w' = fds w"
    and "sys_getaddrinfo os h w = (ais, w') \<Longrightarrow> fds w' = fds w"
  using assms unfolding fd_laws_def by (metis snd_conv)+

subsection \<open>Operations that leave no descriptor behind\<close>

lemma recv_loop_fds:
  assumes "recv_loop matching os fd pid m w = Some rw" and laws: "fd_laws os fds"
  shows "fds (snd rw) = fds w"
proof -
  have "os = os \<longrightarrow> fds (snd rw) = fds w"
  proof (rule recv_loop.raw_induct [where P = "\<lambda>ma o' f p m w rw. o' = os \<longrightarrow> fds (snd rw) = fds w",
        OF _ assms(1)], goal_cases)
    case (1 rec ma o' f p m w rw)
    show ?case
    proof
      assume os: "o' = os"
      obtain x w1 where x: "sys_recv os f False w = (x, w1)" by fastforce
      note k = fd_laws_D(8) [OF laws x]
      show "fds (snd rw) = fds w"
      proof (cases "x = None \<or> x = Some []")
        case True
        with "1"(2) x os have "rw = (False, w1)" by auto
        with k show ?thesis by simp
      next
        case False
        then obtain bs where bs: "x = Some bs" "bs \<noteq> []" by auto
        obtain n m1 where "received 512 bs m = (n, m1)" by fastforce
        with "1"(2) x os bs obtain b where b: "(if b then Some (True, w1) else rec ma os f p m1 w1) = Some rw"
          by (auto simp only: prod.case option.case if_False Let_def bind_Some_iff)
        show ?thesis
        proof (cases b)
          case True
          with b have "rw = (True, w1)" by simp
          with k show ?thesis by simp
        next
          case False
          with b have "rec ma os f p m1 w1 = Some rw" by simp
          from "1"(1) [OF this] k show ?thesis by simp
        qed
      qed
    qed
  qed
  then show ?thesis by simp
qed

lemma drain_fds:
  assumes "drain os gr fd m result w = Some rw" and laws: "fd_laws os fds"
  shows "fds (snd rw) = fds w"
proof -
  have "os = os \<longrightarrow> fds (snd rw) = fds w"
  proof (rule drain.raw_induct [where P = "\<lambda>o' g f m res w rw. o' = os \<longrightarrow> fds (snd rw) = fds w",
        OF _ assms(1)], goal_cases)
    case (1 rec o' g f m res w rw)
    show ?case
    proof
      assume os: "o' = os"
      obtain x w1 where x: "sys_recv os f False w = (x, w1)" by fastforce
      note k = fd_laws_D(8) [OF laws x]
      show "fds (snd rw) = fds w"
      proof (cases "x = None \<or> x = Some []")
        case True
        with "1"(2) x os have "rw = (res, w1)" by auto
        with k show ?thesis by simp
      next
        case False
        then obtain bs where bs: "x = Some bs" "bs \<noteq> []" by auto
        obtain n m1 where "received 8192 bs m = (n, m1)" by fastforce
        with "1"(2) x os bs obtain r where
          d: "(if snd r then Some (if fst r \<noteq> None then fst r else res, w1)
            else rec os g f m1 (if fst r \<noteq> None then fst r else res) w1) = Some rw"
          by (auto simp only: prod.case option.case if_False Let_def bind_Some_iff)
        show ?thesis
        proof (cases "snd r")
          case True
          with d have "snd rw = w1" by auto
          with k show ?thesis by simp
        next
          case False
          with d have "rec os g f m1 (if fst r \<noteq> None then fst r else res) w1 = Some rw" by simp
          from "1"(1) [OF this] k show ?thesis by simp
        qed
      qed
    qed
  qed
  then show ?thesis by simp
qed

lemma resolveGateway_fds:
  assumes "resolveGateway os m iface family w = Some (r, w')" and laws: "fd_laws os fds"
  shows "fds w' = fds w"
proof -
  note D = fd_laws_D [OF laws]
  obtain k w1 where i: "sys_if_nametoindex os iface w = (k, w1)" by fastforce
  obtain gr where gr: "resolveGateway os m iface family w = gr_resolve os gr m w1"
    using i by (auto simp: resolveGateway_def new_gateway_resolver_def)
  obtain fd w2 where s: "sys_socket os AF_NETLINK SOCK_RAW NETLINK_ROUTE w1 = (fd, w2)" by fastforce
  show ?thesis
  proof (cases "gr_ifindex gr = 0 \<or> fd < 0")
    case True
    with assms(1) gr s have "w' = w1 \<or> fd < 0 \<and> w' = w2"
      by (cases "gr_ifindex gr = 0") (simp_all add: gr_resolve_def)
    with D(9) [OF i] D(1) [OF s] show ?thesis by (elim disjE conjE) simp_all
  next
    case False
    obtain n w3 where n: "sys_send os fd (buildRequest gr) w2 = (n, w3)" by fastforce
    from assms(1) gr s False obtain rw where r: "sendRequestAndDrain os gr fd m w2 = Some rw"
      and w': "w' = sys_close os fd (snd rw)" by (auto simp: gr_resolve_def)
    have "fds (snd rw) = fds w3"
    proof (cases "n = 28")
      case True
      with r n have "drain os gr fd m None w3 = Some rw" by (simp add: sendRequestAndDrain_def)
      from drain_fds [OF this laws] show ?thesis .
    next
      case False
      with r n show ?thesis by (auto simp: sendRequestAndDrain_def)
    qed
    with D(7) [OF n] D(2) [OF s] False D(9) [OF i] D(3) show ?thesis by (simp add: w' Diff_insert_absorb)
  qed
qed

lemma ping_fds:
  assumes "ping fam os junk pid ip t seq w = Some (r, seq', w')" and laws: "fd_laws os fds"
  shows "fds w' = fds w"
proof -
  obtain sent seq1 w1 where s: "sendPing fam os pid ip t seq w = (sent, seq1, w1)" by (rule prod_cases3)
  have "fds w1 = fds w"
    using s fd_laws_D(6) [OF laws] by (auto simp: sendPing_def split: if_splits option.splits prod.splits)
  moreover have "fds w' = fds w1"
  proof (cases sent)
    case True
    with assms(1) s have "recvReply fam os junk pid t w1 = Some (r, w')" by (auto simp: ping_def)
    then show ?thesis
      using recv_loop_fds [OF _ laws] by (fastforce simp: recvReply_def split: if_splits)
  qed (use assms(1) s in \<open>auto simp: ping_def\<close>)
  ultimately show ?thesis by simp
qed

lemma recheck_fds:
  assumes "maybeRecheckLocalAddress os iface t af w = (t', w')" and laws: "fd_laws os fds"
  shows "fds w' = fds w" and "sock t' = sock t"
  using assms(1) fd_laws_D(10) [OF laws]
  by (auto simp: maybeRecheckLocalAddress_def ifaceHasAddress_def Let_def split: if_splits prod.splits option.splits)

lemma checkGateway_fds:
  assumes "checkGateway fam os junk iface pid t seq w = Some (t', seq', w')" and laws: "fd_laws os fds"
  shows "fds w' = fds w" and "sock t' = sock t"
proof -
  have l: "fds w1 = fds w \<and> sock t1 = sock t" if "lookupGateway fam os junk iface t w = Some (t1, w1)" for t1 w1
    using that resolveGateway_fds [OF _ laws]
    by (auto simp: lookupGateway_def Let_def split: if_splits option.splits)
  have "fds w' = fds w \<and> sock t' = sock t"
  proof (cases "gatewayMode t = Disabled")
    case True
    with assms(1) show ?thesis by (auto simp: checkGateway_def)
  next
    case False
    with assms(1) obtain t1 w1 where t1: "lookupGateway fam os junk iface t w = Some (t1, w1)"
      by (auto simp: checkGateway_def)
    with False assms(1) l [OF t1] ping_fds [OF _ laws] show ?thesis
      by (auto simp: checkGateway_def split: if_splits)
  qed
  then show "fds w' = fds w" and "sock t' = sock t" by auto
qed

subsection \<open>The monitor's sockets\<close>

definition own :: "proto_track \<Rightarrow> int set" where
  "own t = (if 0 \<le> sock t then {sock t} else {})"

text \<open>The process has \<open>F\<close> open and the track's socket, which is not of \<open>F\<close>.\<close>

definition holds_only :: "('w \<Rightarrow> int set) \<Rightarrow> int set \<Rightarrow> proto_track \<Rightarrow> 'w \<Rightarrow> bool" where
  "holds_only fds F t w \<longleftrightarrow> fds w = F \<union> own t \<and> F \<inter> own t = {}"

lemma openSocket_fds:
  assumes "openSocket fam os iface t w = (t', w')" and laws: "fd_laws os fds" and "holds_only fds F t w"
  shows "holds_only fds F t' w'"
proof -
  note D = fd_laws_D [OF laws]
  define w1 where "w1 = (if 0 \<le> sock t then sys_close os (sock t) w else w)"
  have w1: "fds w1 = F" using assms(3) by (auto simp: w1_def D(3) holds_only_def own_def split: if_splits)
  obtain fd w2 where s: "sys_socket os (fam_af fam) SOCK_RAW (fam_ipproto fam) w1 = (fd, w2)" by fastforce
  obtain n w3 where b: "sys_bindtodevice os fd iface w2 = (n, w3)" by fastforce
  obtain k w4 where r: "sys_rcvtimeo os fd (0, 800 * 1000) w3 = (k, w4)" by fastforce
  from assms(1) s b r have "t' = t\<lparr>sock := fd\<rparr> \<and> w' = (if fd < 0 then w2 else w4)"
    by (auto simp: openSocket_def w1_def [symmetric] Let_def split: if_splits)
  with w1 D(1,2) [OF s] D(4) [OF b] D(5) [OF r] show ?thesis by (auto simp: holds_only_def own_def)
qed

lemma tickProto_fds:
  assumes "tickProto fam os junk iface pid (t, seq, w) = Some (t', seq', w')" and laws: "fd_laws os fds"
    and "holds_only fds F t w"
  shows "holds_only fds F t' w'"
proof -
  have same: "holds_only fds F t2 w2" if "holds_only fds F t1 w1" "fds w2 = fds w1" "sock t2 = sock t1" for t1 w1 t2 w2
    using that by (auto simp: holds_only_def own_def split: if_splits)
  from assms(1) show ?thesis
  proof (cases rule: tickProto_cases)
    case idle
    with same [OF assms(3) recheck_fds [OF idle(1) laws]] show ?thesis by simp
  next
    case (reply t1 w1)
    from same [OF assms(3) recheck_fds [OF reply(1) laws]] have "holds_only fds F t1 w1" .
    from same [OF this ping_fds [OF reply(4) laws]] reply(5) show ?thesis by simp
  next
    case (lost t1 w1 seq2 w2 t3 w3)
    from same [OF assms(3) recheck_fds [OF lost(1) laws]] have "holds_only fds F t1 w1" .
    from same [OF this ping_fds [OF lost(4) laws], of "t1\<lparr>failStreak := failStreak t1 + 1\<rparr>"]
    have "holds_only fds F (t1\<lparr>failStreak := failStreak t1 + 1\<rparr>) w2" by simp
    then have h3: "holds_only fds F t3 w3"
      using lost(5) openSocket_fds [OF _ laws] by (auto simp: recreated_def split: if_splits)
    show ?thesis
    proof (cases "10 \<le> failStreak t3")
      case True
      with lost(6) have c: "checkGateway fam os junk iface pid t3 seq2 w3 = Some (t', seq', w')" by simp
      from same [OF h3 checkGateway_fds [OF c laws]] show ?thesis .
    qed (use lost(6) h3 in simp)
  qed
qed

definition monitor_fds :: "('w \<Rightarrow> int set) \<Rightarrow> int set \<Rightarrow> monitor \<times> 'w \<Rightarrow> bool" where
  "monitor_fds fds F mw \<longleftrightarrow>
     fds (snd mw) = F \<union> own (m_v4 (fst mw)) \<union> own (m_v6 (fst mw)) \<and>
     F \<inter> own (m_v4 (fst mw)) = {} \<and> F \<inter> own (m_v6 (fst mw)) = {} \<and> own (m_v4 (fst mw)) \<inter> own (m_v6 (fst mw)) = {}"

lemma monitor_fds_split:
  "monitor_fds fds F mw \<longleftrightarrow>
     holds_only fds (F \<union> own (m_v6 (fst mw))) (m_v4 (fst mw)) (snd mw) \<and> F \<inter> own (m_v6 (fst mw)) = {}"
  "monitor_fds fds F mw \<longleftrightarrow>
     holds_only fds (F \<union> own (m_v4 (fst mw))) (m_v6 (fst mw)) (snd mw) \<and> F \<inter> own (m_v4 (fst mw)) = {}"
  by (auto simp: monitor_fds_def holds_only_def)

lemma monitor_tick_fds:
  assumes "monitor_tick q os junk (mon, w) = Some (mon', w')" and laws: "fd_laws os fds" and "monitor_fds fds F (mon, w)"
  shows "monitor_fds fds F (mon', w')"
proof -
  from monitor_tick_parts [OF assms(1)] obtain v4 s4 w1 v6 s6 where
    t4: "tickProto inet4 os junk (m_iface mon) (m_pid mon) (m_v4 mon, m_seq4 mon, w) = Some (v4, s4, w1)"
    and t6: "tickProto inet6 os junk (m_iface mon) (m_pid mon) (m_v6 mon, m_seq6 mon, w1) = Some (v6, s6, w')"
    and mon': "mon' = (let mon1 = mon\<lparr>m_v4 := v4, m_seq4 := s4, m_v6 := v6, m_seq6 := s6\<rparr>; state = tick_state_of v4 v6
             in if state \<noteq> m_lastTickState mon then renderTray q (mon1\<lparr>m_lastTickState := state\<rparr>) else mon1)" .
  have v: "m_v4 mon' = v4" "m_v6 mon' = v6" by (simp_all add: mon' Let_def renderTray_frame)
  have "holds_only fds (F \<union> own (m_v6 mon)) v4 w1"
    using tickProto_fds [OF t4 laws] assms(3) by (simp add: monitor_fds_split(1))
  then have "monitor_fds fds F (mon\<lparr>m_v4 := v4\<rparr>, w1)"
    using assms(3) by (simp add: monitor_fds_split(1))
  then have h: "holds_only fds (F \<union> own v4) (m_v6 mon) w1" "F \<inter> own v4 = {}" by (simp_all add: monitor_fds_split(2))
  from tickProto_fds [OF t6 laws h(1)] h(2) show ?thesis by (simp add: monitor_fds_split(2) v)
qed

lemma resolveTargets_fds:
  assumes "resolveTargets os target w = (r, w')" and "fd_laws os fds"
  shows "fds w' = fds w"
  using assms(1) fd_laws_D(11) [OF assms(2)]
  by (auto simp: resolveTargets_def resolveViaDns_def split: option.splits prod.splits)

lemma resolveInitialTargets_fds:
  assumes "resolveInitialTargets os target target6 (mon, w) = (mon', w')" and laws: "fd_laws os fds"
  shows "fds w' = fds w" and "sock (m_v4 mon') = sock (m_v4 mon)" and "sock (m_v6 mon') = sock (m_v6 mon)"
proof -
  obtain r w1 where r: "resolveTargets os target w = (r, w1)" by fastforce
  obtain r6 w2 where r6: "resolveTargets os target6 w1 = (r6, w2)" by fastforce
  from assms(1) r r6 resolveTargets_fds [OF r laws] resolveTargets_fds [OF r6 laws]
  show "fds w' = fds w" and "sock (m_v4 mon') = sock (m_v4 mon)" and "sock (m_v6 mon') = sock (m_v6 mon)"
    by (auto simp: resolveInitialTargets_def Let_def split: option.splits if_splits)
qed

lemma newPingMonitor_fds:
  assumes "newPingMonitor q os iface target target6 label g4 g6 w = (mon, w')" and laws: "fd_laws os fds"
  shows "monitor_fds fds (fds w) (mon, w')"
proof -
  let ?i = "(initial_monitor iface label)\<lparr>m_pid := of_nat (sys_getpid os w), m_ifaceTag := shortIfaceTag q iface\<rparr>"
  obtain m1 w1 where r: "resolveInitialTargets os target target6 (?i, w) = (m1, w1)" by fastforce
  note r_fds = resolveInitialTargets_fds [OF r laws]
  define m0 where "m0 = m1\<lparr>m_v4 := applyGatewayOverride (m_v4 m1) g4, m_v6 := applyGatewayOverride (m_v6 m1) g6\<rparr>"
  let ?s = "setupTray q m0"
  have "sock (m_v4 ?s) = -1" "sock (m_v6 ?s) = -1"
    using r_fds(2,3) by (simp_all add: setupTray_def Let_def renderTray_frame m0_def applyGatewayOverride_def
        initial_monitor_def new_track_def)
  with r_fds(1) have start: "monitor_fds fds (fds w) (?s, w1)" by (simp add: monitor_fds_def own_def)
  have run: "(let (mon, w) = (if configured (m_v4 ?s) then openSocket4 os (?s, w1) else (?s, w1))
      in if configured (m_v6 mon) then openSocket6 os (mon, w) else (mon, w)) = (mon, w')"
  proof -
    have "m_iface ((initial_monitor iface label)\<lparr>m_pid := p\<rparr>) = iface" for p by (simp add: initial_monitor_def)
    moreover have "m1\<lparr>m_v4 := applyGatewayOverride (m_v4 m1) g4,
        m_v6 := applyGatewayOverride (m_v6 (m1\<lparr>m_v4 := applyGatewayOverride (m_v4 m1) g4\<rparr>)) g6\<rparr> = m0"
      by (simp add: m0_def)
    ultimately show ?thesis using assms(1) by (simp only: newPingMonitor_def Let_def r prod.case)
  qed
  obtain m2 w2 where o4: "(if configured (m_v4 ?s) then openSocket4 os (?s, w1) else (?s, w1)) = (m2, w2)" by fastforce
  have s4: "monitor_fds fds (fds w) (m2, w2)"
  proof (cases "configured (m_v4 ?s)")
    case True
    obtain t w3 where t: "openSocket inet4 os (m_iface ?s) (m_v4 ?s) w1 = (t, w3)" by fastforce
    from o4 True t have "m2 = ?s\<lparr>m_v4 := t\<rparr>" "w2 = w3" by (simp_all add: openSocket4_eq)
    with openSocket_fds [OF t laws] start show ?thesis by (simp add: monitor_fds_split(1))
  qed (use o4 start in simp)
  have o6: "(if configured (m_v6 m2) then openSocket6 os (m2, w2) else (m2, w2)) = (mon, w')"
    using run unfolding o4 by simp
  show ?thesis
  proof (cases "configured (m_v6 m2)")
    case True
    obtain t w3 where t: "openSocket inet6 os (m_iface m2) (m_v6 m2) w2 = (t, w3)" by fastforce
    from o6 True t have "mon = m2\<lparr>m_v6 := t\<rparr>" "w' = w3" by (simp_all add: openSocket6_eq)
    with openSocket_fds [OF t laws] s4 show ?thesis by (simp add: monitor_fds_split(2))
  qed (use o6 s4 in simp)
qed

text \<open>
  A monitor in its world, from its creation in a process that has \<open>F\<close> open; between the ticks the
  rest of the process may do anything that leaves its descriptors as they are.
\<close>

inductive monitor_life ::
  "qt \<Rightarrow> 'w os \<Rightarrow> ('w \<Rightarrow> buf) \<Rightarrow> ('w \<Rightarrow> int set) \<Rightarrow> int set \<Rightarrow> monitor \<times> 'w \<Rightarrow> bool" for q os junk fds F where
  born: "newPingMonitor q os iface target target6 label g4 g6 w = mw \<Longrightarrow> fds w = F \<Longrightarrow> monitor_life q os junk fds F mw"
| ticked: "monitor_life q os junk fds F mw \<Longrightarrow> monitor_tick q os junk mw = Some mw' \<Longrightarrow> monitor_life q os junk fds F mw'"
| waited: "monitor_life q os junk fds F (mon, w) \<Longrightarrow> fds w' = fds w \<Longrightarrow> monitor_life q os junk fds F (mon, w')"

lemma monitor_life_fds:
  assumes "fd_laws os fds"
  shows "monitor_life q os junk fds F mw \<Longrightarrow> monitor_fds fds F mw"
proof (induction rule: monitor_life.induct)
  case (born iface target target6 label g4 g6 w mw)
  then show ?case using newPingMonitor_fds [OF _ assms] by (cases mw) fastforce
next
  case (ticked mw mw')
  then show ?case using monitor_tick_fds [OF _ assms] by (cases mw; cases mw') blast
next
  case (waited mon w w')
  then show ?case by (simp add: monitor_fds_def)
qed

subsection \<open>Property\<close>

text \<open>C18: The tray leaks no descriptor, however long it runs and however often it makes its sockets anew or
  looks up a gateway: after any number of ticks the process has open what it had before the monitor
  was created and the monitor's at most two sockets, which differ from each other and from what was
  open before; a socket that was replaced is closed.\<close>

theorem monitor_holds_two_sockets:
  assumes "fd_laws os fds" and "monitor_life q os junk fds F (mon, w)"
  shows "fds w = F \<union> {fd. 0 \<le> fd \<and> (fd = sock (m_v4 mon) \<or> fd = sock (m_v6 mon))} \<and>
    (0 \<le> sock (m_v4 mon) \<longrightarrow> sock (m_v4 mon) \<notin> F \<union> {sock (m_v6 mon)}) \<and>
    (0 \<le> sock (m_v6 mon) \<longrightarrow> sock (m_v6 mon) \<notin> F \<union> {sock (m_v4 mon)})"
  using monitor_life_fds [OF assms]
  by (auto simp: monitor_fds_def own_def split: if_splits)

text \<open>A platform whose world is the list of the open descriptors; it resolves every target to itself.\<close>

definition fd_os :: "int list os" where
  "fd_os = idle_os\<lparr>
     sys_socket := (\<lambda>d t p w. let fd = foldr max w 0 + 1 in (fd, fd # w)),
     sys_close := (\<lambda>fd w. removeAll fd w),
     sys_inet_pton := (\<lambda>f s. Some [])\<rparr>"

lemma fd_os_laws: "fd_laws fd_os set"
proof -
  have f: "foldr max ks 0 + 1 \<notin> set ks" for ks :: "int list"
    using foldr_max_ge(1) [of "foldr max ks 0 + 1" ks] by auto
  have "\<not> foldr max ks 0 + 1 < (0 :: int)" for ks
    using foldr_max_ge(2) [of ks] by simp
  with f show ?thesis
    unfolding fd_laws_def by (auto simp: fd_os_def idle_os_def Let_def split: if_splits)
qed

theorem monitor_holds_two_sockets_witness:
  "\<exists>mon w. newPingMonitor ascii_qt fd_os ''wlan0'' ''1.1.1.1'' [] ''WiFi'' [] [] [0, 1, 2] = (mon, w) \<and>
     set w = {0, 1, 2} \<union> {fd. 0 \<le> fd \<and> (fd = sock (m_v4 mon) \<or> fd = sock (m_v6 mon))}"
proof -
  obtain mon w where n: "newPingMonitor ascii_qt fd_os ''wlan0'' ''1.1.1.1'' [] ''WiFi'' [] [] [0, 1, 2] = (mon, w)"
    by (rule prod.exhaust)
  have "monitor_life ascii_qt fd_os (\<lambda>_ _. 0) set {0, 1, 2} (mon, w)"
    by (rule monitor_life.born [OF n]) simp
  from monitor_holds_two_sockets [OF fd_os_laws this] n show ?thesis by blast
qed

end
