(* ===== verification/Tray_Types.thy ===== *)
theory Tray_Types
  imports Tray_Main
begin

section \<open>What the monitor's fields can hold\<close>

text \<open>
  The types of the code say little: addresses are strings, the state of a protocol is ten fields. This
  theory says which values those fields take together: a type, in the sense that the constructor
  establishes it and every tick, whatever the network and the kernel answer, keeps it.
\<close>

fun gateway_typed :: "'w os \<Rightarrow> nat \<Rightarrow> override_mode \<Rightarrow> bool \<Rightarrow> string \<Rightarrow> bool" where
  "gateway_typed os af Auto resolved ip \<longleftrightarrow> ip = [] \<or> resolved \<and> sys_inet_pton os af ip \<noteq> None"
| "gateway_typed os af Fixed resolved ip \<longleftrightarrow> resolved \<and> ip \<noteq> []"
| "gateway_typed os af Disabled resolved ip \<longleftrightarrow> \<not> resolved \<and> ip = []"

definition track_typed :: "'w os \<Rightarrow> nat \<Rightarrow> proto_track \<Rightarrow> bool" where
  "track_typed os af t \<longleftrightarrow>
     (if configured t then sys_inet_pton os af (targetIp t) \<noteq> None
      else targetIp t = [] \<and> \<not> hasLocalAddress t \<and> recheckTicksLeft t = 0) \<and>
     gateway_typed os af (gatewayMode t) (gatewayResolved t) (gatewayIp t)"

subsection \<open>A route lookup gives an address\<close>

text \<open>Whatever bytes the kernel's answer consists of, well-formed or not.\<close>

definition parsable :: "'w os \<Rightarrow> nat \<Rightarrow> string option \<Rightarrow> bool" where
  "parsable os af r \<longleftrightarrow> (\<forall>s. r = Some s \<longrightarrow> sys_inet_pton os af s \<noteq> None)"

lemma parsable_None [simp]: "parsable os af None"
  by (simp add: parsable_def)

lemma formatGateway_parsable:
  assumes "inet_laws os" and "formatGateway os cap m gr a n = Some r"
  shows "parsable os (gr_family gr) r"
proof -
  have "sys_inet_pton os af s \<noteq> None" if "sys_inet_ntop os af bs = Some s" "af \<in> {AF_INET, AF_INET6}" for af bs s
    using assms(1) that unfolding inet_laws_def by blast
  with assms(2) show ?thesis by (force simp: formatGateway_def parsable_def split: if_splits)
qed

lemma parseDefaultRouteGateway_parsable:
  assumes "inet_laws os" and "parseDefaultRouteGateway os cap m gr nlh len = Some r"
  shows "parsable os (gr_family gr) r"
proof (cases r)
  case (Some s)
  with assms(2) obtain a n where "formatGateway os cap m gr a n = Some r"
    by (auto simp: parseDefaultRouteGateway_def split: if_splits option.splits)
  with assms(1) show ?thesis by (rule formatGateway_parsable)
qed simp

lemma scanBatch_parsable:
  assumes ret: "scanBatch os cap m gr nlh n result = Some r" and laws: "inet_laws os"
  shows "parsable os (gr_family gr) result \<Longrightarrow> parsable os (gr_family gr) (fst r)"
proof -
  have "os = os \<longrightarrow> parsable os (gr_family gr) result \<longrightarrow> parsable os (gr_family gr) (fst r)"
  proof (rule scanBatch.raw_induct [where P = "\<lambda>o' cap m g nlh n result r. o' = os \<longrightarrow>
        parsable os (gr_family g) result \<longrightarrow> parsable os (gr_family g) (fst r)", OF _ ret], goal_cases)
    case (1 f o' cap m g nlh n result r)
    show ?case
    proof (intro impI)
      assume os: "o' = os" and res: "parsable os (gr_family g) result"
      show "parsable os (gr_family g) (fst r)"
      proof (cases "fst r = result")
        case False
        with "1"(2) os obtain off n' result' where rest: "f os cap m g off n' result' = Some r"
          and r': "result' = result \<or> (\<exists>len. parseDefaultRouteGateway os cap m g nlh len = Some result')"
          by (auto split: if_splits)
        from r' res parseDefaultRouteGateway_parsable [OF laws] have "parsable os (gr_family g) result'" by blast
        with "1"(1) [OF rest] show ?thesis by simp
      qed (simp add: res)
    qed
  qed
  then show "parsable os (gr_family gr) result \<Longrightarrow> parsable os (gr_family gr) (fst r)" by simp
qed

lemma drain_parsable:
  assumes ret: "drain os gr fd m result w = Some r" and laws: "inet_laws os"
  shows "parsable os (gr_family gr) result \<Longrightarrow> parsable os (gr_family gr) (fst r)"
proof -
  have "os = os \<longrightarrow> parsable os (gr_family gr) result \<longrightarrow> parsable os (gr_family gr) (fst r)"
  proof (rule drain.raw_induct [where P = "\<lambda>o' g fd m result w r. o' = os \<longrightarrow>
        parsable os (gr_family g) result \<longrightarrow> parsable os (gr_family g) (fst r)", OF _ ret], goal_cases)
    case (1 f o' g fd m result w r)
    show ?case
    proof (intro impI)
      assume os: "o' = os" and res: "parsable os (gr_family g) result"
      obtain x w1 where x: "sys_recv os fd False w = (x, w1)" by (rule prod.exhaust)
      show "parsable os (gr_family g) (fst r)"
      proof (cases "x = None \<or> x = Some []")
        case True
        with "1"(2) os x res show ?thesis by auto
      next
        case False
        then obtain bs where bs: "x = Some bs" "bs \<noteq> []" by auto
        obtain n m1 where rc: "received 8192 bs m = (n, m1)" by (rule prod.exhaust)
        from "1"(2) os x bs rc obtain s where s: "scanBatch os 8192 m1 g 0 (int n) None = Some s" by (auto simp: Let_def)
        with "1"(2) os x bs rc have rest: "(if snd s then Some (if fst s \<noteq> None then fst s else result, w1)
            else f os g fd m1 (if fst s \<noteq> None then fst s else result) w1) = Some r"
          by (cases "fst s"; cases "snd s") (simp_all add: Let_def)
        have "parsable os (gr_family g) (if fst s \<noteq> None then fst s else result)"
          using scanBatch_parsable [OF s laws] res by simp
        with rest "1"(1) [of os g fd m1 _ w1 r] show ?thesis by (auto split: if_splits)
      qed
    qed
  qed
  then show "parsable os (gr_family gr) result \<Longrightarrow> parsable os (gr_family gr) (fst r)" by simp
qed

lemma resolveGateway_parsable:
  assumes "resolveGateway os m iface af w = Some (r, w')" and "inet_laws os"
  shows "parsable os af r"
proof -
  obtain gr w1 where g: "new_gateway_resolver os iface af w = (gr, w1)" by (rule prod.exhaust)
  then have af: "gr_family gr = af" by (auto simp: new_gateway_resolver_def split: prod.splits)
  have "parsable os (gr_family gr) (fst x)" if "sendRequestAndDrain os gr fd m w2 = Some x" for fd w2 x
    using that drain_parsable [OF _ assms(2), of gr fd m None]
    by (auto simp: sendRequestAndDrain_def Let_def split: prod.splits if_splits)
  with assms(1) g af show ?thesis
    by (fastforce simp: resolveGateway_def gr_resolve_def Let_def split: prod.splits if_splits)
qed

subsection \<open>A tick keeps the type\<close>

lemma lookupGateway_typed:
  assumes "lookupGateway fam os junk iface t w = Some (t', w')" and "inet_laws os"
    and "track_typed os (fam_af fam) t" and "gatewayMode t \<noteq> Disabled"
  shows "track_typed os (fam_af fam) t'"
proof (cases "gatewayResolved t")
  case True
  with assms show ?thesis by (simp add: lookupGateway_def)
next
  case False
  with assms(1) obtain gw where gw: "resolveGateway os (junk w) iface (fam_af fam) w = Some (gw, w')"
    and t': "t' = (case gw of Some g \<Rightarrow> t\<lparr>gatewayResolved := True, gatewayIp := g\<rparr> | None \<Rightarrow> t\<lparr>gatewayResolved := True\<rparr>)"
    by (auto simp: lookupGateway_def Let_def split: option.splits)
  have "gatewayMode t = Auto" using False assms(3,4) by (cases "gatewayMode t") (auto simp: track_typed_def)
  with assms(3) resolveGateway_parsable [OF gw assms(2)] show ?thesis
    by (auto simp: t' track_typed_def parsable_def split: option.split if_splits)
qed

lemma track_typed_simps [simp]:
  "track_typed os af (t\<lparr>sock := fd\<rparr>) = track_typed os af t"
  "track_typed os af (t\<lparr>failStreak := n\<rparr>) = track_typed os af t"
  "track_typed os af (t\<lparr>gatewayReachable := b\<rparr>) = track_typed os af t"
  by (simp_all add: track_typed_def)

lemma checkGateway_typed:
  assumes "checkGateway fam os junk iface pid t seq w = Some (t', seq', w')" and "inet_laws os"
    and "track_typed os (fam_af fam) t"
  shows "track_typed os (fam_af fam) t'"
proof (cases "gatewayMode t = Disabled")
  case True
  with assms show ?thesis by (auto simp: checkGateway_def)
next
  case False
  with assms(1) obtain t1 w1 where l: "lookupGateway fam os junk iface t w = Some (t1, w1)"
    by (auto simp: checkGateway_def)
  with assms(1) False obtain r where "t' = t1\<lparr>gatewayReachable := r\<rparr>"
    by (auto simp: checkGateway_def split: if_splits)
  with lookupGateway_typed [OF l assms(2,3) False] show ?thesis by simp
qed

lemma recheck_typed:
  assumes "maybeRecheckLocalAddress os iface t family w = (t', w')" and "track_typed os af t"
  shows "track_typed os af t'"
  using assms by (auto simp: maybeRecheckLocalAddress_def track_typed_def split: if_splits prod.splits)

lemma recreated_typed:
  assumes "recreated fam os iface t w = (t', w')"
  shows "track_typed os af t' = track_typed os af t"
proof -
  obtain fd where "t' = t\<lparr>failStreak := failStreak t + 1, sock := fd\<rparr>" using recreated_frame [OF assms] by metis
  then show ?thesis by simp
qed

lemma tickProto_typed:
  assumes "tickProto fam os junk iface pid (t, seq, w) = Some (t', seq', w')" and laws: "inet_laws os"
    and "track_typed os (fam_af fam) t"
  shows "track_typed os (fam_af fam) t'"
  using assms(1)
proof (cases rule: tickProto_cases)
  case idle
  from recheck_typed [OF idle(1) assms(3)] show ?thesis .
next
  case (reply t1 w1)
  with recheck_typed [OF reply(1) assms(3)] show ?thesis by simp
next
  case (lost t1 w1 seq2 w2 t3 w3)
  have "track_typed os (fam_af fam) t3"
    using recreated_typed [OF lost(5)] recheck_typed [OF lost(1) assms(3)] by simp
  with lost(6) checkGateway_typed [OF _ laws] show ?thesis by (auto split: if_splits)
qed

subsection \<open>The constructor establishes it\<close>

lemma applyGatewayOverride_typed:
  assumes "track_typed os af t" and "gatewayMode t = Auto" and "gatewayIp t = []" and "\<not> gatewayResolved t"
  shows "track_typed os af (applyGatewayOverride t g)"
  using assms by (auto simp: applyGatewayOverride_def GatewayOverride_def track_typed_def Let_def)

text \<open>A protocol's track before the override: the default one, or one with a target.\<close>

definition targeted :: "string option \<Rightarrow> proto_track" where
  "targeted a = (case a of None \<Rightarrow> new_track | Some ip \<Rightarrow> new_track\<lparr>targetIp := ip, configured := True\<rparr>)"

lemma targeted_typed: "parsable os af a \<Longrightarrow> track_typed os af (applyGatewayOverride (targeted a) g)"
  by (rule applyGatewayOverride_typed)
    (auto simp: targeted_def track_typed_def parsable_def new_track_def split: option.split)

lemma resolveInitialTargets_tracks:
  assumes "resolveInitialTargets os target target6 (mon, w) = (mon', w')" and "m_v4 mon = new_track" and "m_v6 mon = new_track"
    and "inet_laws os"
  shows "\<exists>a b. m_v4 mon' = targeted a \<and> m_v6 mon' = targeted b \<and> parsable os AF_INET a \<and> parsable os AF_INET6 b"
proof -
  obtain r w1 where r: "resolveTargets os target w = (r, w1)" by (rule prod.exhaust)
  obtain r6 w2 where r6: "resolveTargets os target6 w1 = (r6, w2)" by (rule prod.exhaust)
  have p: "parsable os AF_INET (rt_v4 r)" "parsable os AF_INET6 (rt_v6 r)" "parsable os AF_INET6 (rt_v6 r6)"
    using resolveTargets_parsable [OF assms(4) r] resolveTargets_parsable [OF assms(4) r6]
    by (simp_all add: parsable_def)
  have "m_v4 mon' = targeted (rt_v4 r)"
    using assms(1-3) by (cases "rt_v4 r"; cases "rt_v6 r"; cases "rt_v6 r6")
      (auto simp: resolveInitialTargets_def r r6 targeted_def new_track_def Let_def split: if_splits)
  moreover have "m_v6 mon' = targeted (rt_v6 r) \<or> m_v6 mon' = targeted (rt_v6 r6)"
    using assms(1-3) by (cases "rt_v4 r"; cases "rt_v6 r"; cases "rt_v6 r6")
      (auto simp: resolveInitialTargets_def r r6 targeted_def new_track_def Let_def split: if_splits)
  ultimately show ?thesis using p by blast
qed

lemma newPingMonitor_tracks:
  assumes "newPingMonitor q os iface target target6 label g4 g6 w = (mon, w')" and laws: "inet_laws os"
  shows "track_typed os AF_INET (m_v4 mon)" and "track_typed os AF_INET6 (m_v6 mon)"
proof -
  let ?i = "(initial_monitor iface label)\<lparr>m_pid := of_nat (sys_getpid os w), m_ifaceTag := shortIfaceTag q iface\<rparr>"
  from newPingMonitor_resolved [OF assms(1)] obtain m1 w1 x y where
    r: "resolveInitialTargets os target target6 (?i, w) = (m1, w1)"
    and v: "m_v4 mon = (applyGatewayOverride (m_v4 m1) g4)\<lparr>sock := x\<rparr>"
      "m_v6 mon = (applyGatewayOverride (m_v6 m1) g6)\<lparr>sock := y\<rparr>" .
  have "m_v4 ?i = new_track" "m_v6 ?i = new_track" by (simp_all add: initial_monitor_def)
  from resolveInitialTargets_tracks [OF r this laws] obtain a b where
    "m_v4 m1 = targeted a" "m_v6 m1 = targeted b" "parsable os AF_INET a" "parsable os AF_INET6 b" by blast
  with v targeted_typed show "track_typed os AF_INET (m_v4 mon)" "track_typed os AF_INET6 (m_v6 mon)" by simp_all
qed

lemma monitor_tick_typed:
  assumes "monitor_tick q os junk (mon, w) = Some (mon', w')" and laws: "inet_laws os"
    and "track_typed os AF_INET (m_v4 mon)" and "track_typed os AF_INET6 (m_v6 mon)"
  shows "track_typed os AF_INET (m_v4 mon') \<and> track_typed os AF_INET6 (m_v6 mon')"
proof -
  from monitor_tick_parts [OF assms(1)] obtain v4 s4 w1 v6 s6 where
    t4: "tickProto inet4 os junk (m_iface mon) (m_pid mon) (m_v4 mon, m_seq4 mon, w) = Some (v4, s4, w1)"
    and t6: "tickProto inet6 os junk (m_iface mon) (m_pid mon) (m_v6 mon, m_seq6 mon, w1) = Some (v6, s6, w')"
    and mon': "mon' = (let mon1 = mon\<lparr>m_v4 := v4, m_seq4 := s4, m_v6 := v6, m_seq6 := s6\<rparr>; state = tick_state_of v4 v6
             in if state \<noteq> m_lastTickState mon then renderTray q (mon1\<lparr>m_lastTickState := state\<rparr>) else mon1)" .
  have f: "fam_af inet4 = AF_INET" "fam_af inet6 = AF_INET6" by (simp_all add: inet4_def inet6_def)
  have "m_v4 mon' = v4" "m_v6 mon' = v6" by (simp_all add: mon' Let_def renderTray_frame)
  with tickProto_typed [OF t4 laws] tickProto_typed [OF t6 laws] assms(3,4) f show ?thesis by simp
qed

lemma monitor_reachable_typed:
  assumes laws: "inet_laws os"
  shows "monitor_reachable q os junk mon \<Longrightarrow>
    track_typed os AF_INET (m_v4 mon) \<and> track_typed os AF_INET6 (m_v6 mon)"
proof (induction rule: monitor_reachable.induct)
  case (created iface target target6 label g4 g6 w mon w')
  from newPingMonitor_tracks [OF created laws] show ?case by simp
next
  case (ticked mon w mon' w')
  from monitor_tick_typed [OF ticked.hyps(2) laws] ticked.IH show ?case by simp
qed

text \<open>A ping of an address that parses is one datagram and one sequence number.\<close>

lemma sendPing4_once:
  assumes "sys_inet_pton os AF_INET ip \<noteq> None" and "0 \<le> sock (m_v4 mon)"
  obtains addr n w' where "sys_sendto os (sock (m_v4 mon)) (request4 (m_pid mon) (m_seq4 mon)) (Sockaddr_in addr) w = (n, w')"
    and "sendPing4 os ip (mon, w) = (n = 24, mon\<lparr>m_seq4 := m_seq4 mon + 1\<rparr>, w')"
proof -
  from assms(1) obtain addr where a: "sys_inet_pton os AF_INET ip = Some addr" by blast
  obtain n w' where s: "sys_sendto os (sock (m_v4 mon)) (request4 (m_pid mon) (m_seq4 mon)) (Sockaddr_in addr) w = (n, w')"
    by (rule prod.exhaust)
  show thesis using that [OF s] s a assms(2) by (simp add: sendPing4_def Let_def layout_simps)
qed

lemma sendPing6_once:
  assumes "sys_inet_pton os AF_INET6 ip \<noteq> None" and "0 \<le> sock (m_v6 mon)"
  obtains addr n w' where "sys_sendto os (sock (m_v6 mon)) (request6 (m_pid mon) (m_seq6 mon)) (Sockaddr_in6 addr) w = (n, w')"
    and "sendPing6 os ip (mon, w) = (n = 24, mon\<lparr>m_seq6 := m_seq6 mon + 1\<rparr>, w')"
proof -
  from assms(1) obtain addr where a: "sys_inet_pton os AF_INET6 ip = Some addr" by blast
  obtain n w' where s: "sys_sendto os (sock (m_v6 mon)) (request6 (m_pid mon) (m_seq6 mon)) (Sockaddr_in6 addr) w = (n, w')"
    by (rule prod.exhaust)
  show thesis using that [OF s] s a assms(2) by (simp add: sendPing6_def Let_def layout_simps)
qed

subsection \<open>Properties\<close>

text \<open>C15: The values of the monitor's fields, in every state it can reach: a configured protocol has an
  address of its own family as target and an unconfigured one has none and no countdown; a fixed gateway
  is never looked up, a disabled one has no address, and one that was looked up is an address of the
  family, whatever bytes the kernel answered; counters are in range and losses are counted only for an
  addressed protocol. So a ping of the target over an open socket is always sent, and uses up one
  sequence number: it is never given up for want of an address.\<close>

theorem monitor_fields_typed:
  assumes "inet_laws os" and "monitor_reachable q os junk mon"
  shows "track_typed os AF_INET (m_v4 mon) \<and> track_typed os AF_INET6 (m_v6 mon) \<and>
    track_inv (m_v4 mon) \<and> track_inv (m_v6 mon) \<and>
    (configured (m_v4 mon) \<and> 0 \<le> sock (m_v4 mon) \<longrightarrow>
      (\<exists>addr n w'. sys_sendto os (sock (m_v4 mon)) (request4 (m_pid mon) (m_seq4 mon)) (Sockaddr_in addr) w = (n, w') \<and>
        sendPing4 os (targetIp (m_v4 mon)) (mon, w) = (n = 24, mon\<lparr>m_seq4 := m_seq4 mon + 1\<rparr>, w'))) \<and>
    (configured (m_v6 mon) \<and> 0 \<le> sock (m_v6 mon) \<longrightarrow>
      (\<exists>addr n w'. sys_sendto os (sock (m_v6 mon)) (request6 (m_pid mon) (m_seq6 mon)) (Sockaddr_in6 addr) w = (n, w') \<and>
        sendPing6 os (targetIp (m_v6 mon)) (mon, w) = (n = 24, mon\<lparr>m_seq6 := m_seq6 mon + 1\<rparr>, w')))"
proof -
  have t: "track_typed os AF_INET (m_v4 mon)" "track_typed os AF_INET6 (m_v6 mon)"
    using monitor_reachable_typed [OF assms] by simp_all
  have i: "track_inv (m_v4 mon)" "track_inv (m_v6 mon)"
    using monitor_reachable_inv [OF assms(2)] by (simp_all add: monitor_inv_def)
  have "\<exists>addr n w'. sys_sendto os (sock (m_v4 mon)) (request4 (m_pid mon) (m_seq4 mon)) (Sockaddr_in addr) w = (n, w') \<and>
        sendPing4 os (targetIp (m_v4 mon)) (mon, w) = (n = 24, mon\<lparr>m_seq4 := m_seq4 mon + 1\<rparr>, w')"
    if "configured (m_v4 mon) \<and> 0 \<le> sock (m_v4 mon)"
  proof -
    from t(1) that have "sys_inet_pton os AF_INET (targetIp (m_v4 mon)) \<noteq> None" "0 \<le> sock (m_v4 mon)"
      by (simp_all add: track_typed_def)
    from sendPing4_once [OF this] show ?thesis by blast
  qed
  moreover have "\<exists>addr n w'. sys_sendto os (sock (m_v6 mon)) (request6 (m_pid mon) (m_seq6 mon)) (Sockaddr_in6 addr) w = (n, w') \<and>
        sendPing6 os (targetIp (m_v6 mon)) (mon, w) = (n = 24, mon\<lparr>m_seq6 := m_seq6 mon + 1\<rparr>, w')"
    if "configured (m_v6 mon) \<and> 0 \<le> sock (m_v6 mon)"
  proof -
    from t(2) that have "sys_inet_pton os AF_INET6 (targetIp (m_v6 mon)) \<noteq> None" "0 \<le> sock (m_v6 mon)"
      by (simp_all add: track_typed_def)
    from sendPing6_once [OF this] show ?thesis by blast
  qed
  ultimately show ?thesis using t i by blast
qed

theorem monitor_fields_typed_witness:
  "\<exists>mon. configured (m_v4 mon) \<and> track_typed lab_os AF_INET (m_v4 mon) \<and>
     (\<exists>w'. sendPing4 lab_os (targetIp (m_v4 mon)) (mon, []) = (True, mon\<lparr>m_seq4 := m_seq4 mon + 1\<rparr>, w'))"
proof -
  have laws: "inet_laws lab_os"
    using dns_os_laws [where 'a = "bytes option list"] by (simp add: inet_laws_def lab_os_def)
  from lab_monitor obtain mon w where
    n: "newPingMonitor ascii_qt lab_os ''wlan0'' ''4tttt'' [] ''WiFi'' [] [] [] = (mon, w)"
    and v4: "m_v4 mon = new_track\<lparr>targetIp := ''4tttt'', configured := True, sock := 5\<rparr>" by blast
  note p = monitor_fields_typed [OF laws monitor_reachable.created [OF n], where w = "[]"]
  have c: "configured (m_v4 mon)" "0 \<le> sock (m_v4 mon)" by (simp_all add: v4)
  with p obtain addr k w' where
    "sys_sendto lab_os (sock (m_v4 mon)) (request4 (m_pid mon) (m_seq4 mon)) (Sockaddr_in addr) [] = (k, w')"
    and s: "sendPing4 lab_os (targetIp (m_v4 mon)) (mon, []) = (k = 24, mon\<lparr>m_seq4 := m_seq4 mon + 1\<rparr>, w')" by blast
  then have "k = 24" by (simp add: layout_simps)
  with s p c(1) show ?thesis by (intro exI [of _ mon] conjI exI [of _ w']) simp_all
qed

end
