(* ===== verification/Tray_Traffic.thy ===== *)
theory Tray_Traffic
  imports Tray_Main
begin

section \<open>Waiting for a reply among other traffic (ping_monitor_socket4.cpp, ping_monitor_socket6.cpp)\<close>

text \<open>
  A raw ICMP socket receives every ICMP message of its interface: the replies to other programs'
  requests, error messages, and the neighbour and router messages of IPv6. The time limit of 800
  milliseconds is the socket's, per receive; the loop around it has none. In the model a receive
  that gives a datagram is one whose wait ended before the limit.
\<close>

text \<open>At any time a datagram comes in before the limit, and it is not a reply to this monitor.\<close>

definition foreign_traffic :: "'w os \<Rightarrow> int \<Rightarrow> (bytes \<Rightarrow> bool) \<Rightarrow> bool" where
  "foreign_traffic os fd accepted \<longleftrightarrow>
     (\<forall>w. \<exists>bs w'. sys_recv os fd False w = (Some bs, w') \<and> bs \<noteq> [] \<and> \<not> accepted bs)"

lemma recv_loop_foreign:
  shows "foreign_traffic os fd (is_reply4 pid) \<Longrightarrow> recv_loop isMatchingReply4 os fd pid m w = None"
    and "foreign_traffic os fd (is_reply6 pid) \<Longrightarrow> recv_loop isMatchingReply6 os fd pid m w = None"
proof -
  assume "foreign_traffic os fd (is_reply4 pid)"
  then show "recv_loop isMatchingReply4 os fd pid m w = None"
    by (intro recv_loop_endless) (simp add: foreign_traffic_def)
next
  assume f: "foreign_traffic os fd (is_reply6 pid)"
  then have "\<not> hears (is_reply6 pid) os fd w r w'" for r w'
    using hears_endless [of "is_reply6 pid" os fd w r w'] unfolding foreign_traffic_def by blast
  then show "recv_loop isMatchingReply6 os fd pid m w = None"
    using recv_loop6_iff [of os fd pid m w] by (cases "recv_loop isMatchingReply6 os fd pid m w") auto
qed

text \<open>A tick whose target ping does not come back does not come back.\<close>

lemma tickProto_stuck:
  assumes "configured t" and "hasLocalAddress t" and "ping fam os junk pid (targetIp t) t seq w = None"
  shows "tickProto fam os junk iface pid (t, seq, w) = None"
  using assms by (simp add: tickProto_def maybeRecheckLocalAddress_def)

lemma ping4_foreign:
  assumes "sendPing4 os ip (mon, w) = (True, mon1, w1)" and "foreign_traffic os (sock (m_v4 mon)) (is_reply4 (m_pid mon))"
  shows "ping4 os junk ip (mon, w) = None"
proof -
  have "m_v4 mon1 = m_v4 mon" "m_pid mon1 = m_pid mon" "0 \<le> sock (m_v4 mon)"
    using assms(1) by (auto simp: sendPing4_def Let_def split: if_splits option.splits prod.splits)
  with assms(1) recv_loop_foreign(1) [OF assms(2)] show ?thesis by (simp add: ping4_def recvReply4_def)
qed

lemma ping6_foreign:
  assumes "sendPing6 os ip (mon, w) = (True, mon1, w1)" and "foreign_traffic os (sock (m_v6 mon)) (is_reply6 (m_pid mon))"
  shows "ping6 os junk ip (mon, w) = None"
proof -
  have "m_v6 mon1 = m_v6 mon" "m_pid mon1 = m_pid mon" "0 \<le> sock (m_v6 mon)"
    using assms(1) by (auto simp: sendPing6_def Let_def split: if_splits option.splits prod.splits)
  with assms(1) recv_loop_foreign(2) [OF assms(2)] show ?thesis by (simp add: ping6_def recvReply6_def)
qed

subsection \<open>Properties\<close>

text \<open>C13: Foreign traffic can freeze the tray: if the request to the target has been sent and the interface
  carries, at least once within every 800 milliseconds, an ICMP message of the family that is no reply to
  this monitor, then the tick does not return as long as the target does not answer: no loss is
  counted, the gateway is not asked and the icon stays as it was, for either protocol.\<close>

theorem foreign_traffic_freezes_tray:
  "(configured (m_v4 mon) \<and> hasLocalAddress (m_v4 mon) \<and>
      sendPing4 os (targetIp (m_v4 mon)) (mon, w) = (True, mon1, w1) \<and>
      foreign_traffic os (sock (m_v4 mon)) (is_reply4 (m_pid mon)) \<longrightarrow>
      monitor_tick q os junk (mon, w) = None) \<and>
   (tickV4 os junk (mon, w) = Some (mon2, w2) \<and> configured (m_v6 mon2) \<and> hasLocalAddress (m_v6 mon2) \<and>
      sendPing6 os (targetIp (m_v6 mon2)) (mon2, w2) = (True, mon3, w3) \<and>
      foreign_traffic os (sock (m_v6 mon2)) (is_reply6 (m_pid mon2)) \<longrightarrow>
      monitor_tick q os junk (mon, w) = None)"
proof (intro conjI impI; elim conjE)
  assume "configured (m_v4 mon)" "hasLocalAddress (m_v4 mon)" and s: "sendPing4 os (targetIp (m_v4 mon)) (mon, w) = (True, mon1, w1)"
    and f: "foreign_traffic os (sock (m_v4 mon)) (is_reply4 (m_pid mon))"
  moreover have "ping inet4 os junk (m_pid mon) (targetIp (m_v4 mon)) (m_v4 mon) (m_seq4 mon) w = None"
    using ping4_foreign [OF s f, of junk] unfolding ping4_eq
    by (cases "ping inet4 os junk (m_pid mon) (targetIp (m_v4 mon)) (m_v4 mon) (m_seq4 mon) w") auto
  ultimately show "monitor_tick q os junk (mon, w) = None" by (simp add: monitor_tick_def tickV4_eq tickProto_stuck)
next
  assume t: "tickV4 os junk (mon, w) = Some (mon2, w2)" and a: "configured (m_v6 mon2)" "hasLocalAddress (m_v6 mon2)"
    and s: "sendPing6 os (targetIp (m_v6 mon2)) (mon2, w2) = (True, mon3, w3)"
    and f: "foreign_traffic os (sock (m_v6 mon2)) (is_reply6 (m_pid mon2))"
  have "ping inet6 os junk (m_pid mon2) (targetIp (m_v6 mon2)) (m_v6 mon2) (m_seq6 mon2) w2 = None"
    using ping6_foreign [OF s f, of junk] unfolding ping6_eq
    by (cases "ping inet6 os junk (m_pid mon2) (targetIp (m_v6 mon2)) (m_v6 mon2) (m_seq6 mon2) w2") auto
  with t a show "monitor_tick q os junk (mon, w) = None" by (simp add: monitor_tick_def tickV6_eq tickProto_stuck)
qed

text \<open>An interface with a monitor whose target is silent, and a neighbour that is not.\<close>

theorem foreign_traffic_freezes_tray_witness:
  "\<exists>mon :: monitor. failStreak (m_v4 mon) = 9 \<and>
     monitor_tick ascii_qt (lab_os\<lparr>sys_recv := (\<lambda>fd dw w. (Some [3, 1], w))\<rparr>) (\<lambda>_ _. 0) (mon, []) = None"
proof -
  let ?os = "lab_os\<lparr>sys_recv := (\<lambda>fd dw w. (Some [3, 1], w))\<rparr>"
  let ?mon = "(initial_monitor ''wlan0'' ''WiFi'')\<lparr>m_v4 := lab_after 9 False\<rparr>"
  have t: "configured (m_v4 ?mon)" "hasLocalAddress (m_v4 ?mon)" "failStreak (m_v4 ?mon) = 9"
    by (simp_all add: lab_after_def lab_track_def)
  have s: "\<exists>mon1. sendPing4 ?os (targetIp (m_v4 ?mon)) (?mon, []) = (True, mon1, [])"
    by (simp add: sendPing4_def lab_after_def lab_track_def new_track_def Let_def layout_simps)
  have f: "foreign_traffic ?os (sock (m_v4 ?mon)) (is_reply4 (m_pid ?mon))"
    by (auto simp: foreign_traffic_def is_reply4_def reply_at_def)
  from s obtain mon1 where "sendPing4 ?os (targetIp (m_v4 ?mon)) (?mon, []) = (True, mon1, [])" by blast
  with foreign_traffic_freezes_tray [of ?mon ?os "[]" mon1 "[]" ascii_qt "\<lambda>_ _. 0"] t f
  have "monitor_tick ascii_qt ?os (\<lambda>_ _. 0) (?mon, []) = None" by blast
  with t(3) show ?thesis by blast
qed

end
