(* ===== verification/Tray_History.thy ===== *)
theory Tray_History
  imports Tray_Main
begin

section \<open>What the tray shows, as a function of what happened\<close>

text \<open>
  A description of the tray that has no state: what a tick finds out about a protocol is one event,
  and the icon and the status text are functions of the two sequences of events since the start. The
  properties show that the monitor, with its counters, flags, caches and remembered tick state, shows
  just that, and where the colour is not the one the README documents.
\<close>

subsection \<open>Events\<close>

text \<open>
  The protocol is not configured or has no address on the interface; its target answers; or it does
  not, and then whether the gateway does, asked in the same tick from the tenth loss on.
\<close>

datatype ping_event = Skipped | Answered | Unanswered bool

text \<open>The event of a tick in a state of the protocol: from the answers of the platform, in the code's order.\<close>

definition gateway_answers ::
  "family \<Rightarrow> 'w os \<Rightarrow> ('w \<Rightarrow> buf) \<Rightarrow> string \<Rightarrow> u16 \<Rightarrow> proto_track \<Rightarrow> u16 \<Rightarrow> 'w \<Rightarrow> bool option" where
  "gateway_answers fam os junk iface pid t seq w =
     (if gatewayMode t = Disabled then Some False
      else do {
        (t, w) \<leftarrow> lookupGateway fam os junk iface t w;
        if gatewayIp t = [] then Some False
        else do { (r, seq, w) \<leftarrow> ping fam os junk pid (gatewayIp t) t seq w; Some r }
      })"

definition tick_event ::
  "family \<Rightarrow> 'w os \<Rightarrow> ('w \<Rightarrow> buf) \<Rightarrow> string \<Rightarrow> u16 \<Rightarrow> proto_track \<times> u16 \<times> 'w \<Rightarrow> ping_event option" where
  "tick_event fam os junk iface pid s =
     (let (t, seq, w) = s;
          (t, w) = maybeRecheckLocalAddress os iface t (fam_af fam) w
      in if \<not> (configured t \<and> hasLocalAddress t) then Some Skipped
         else do {
           (ok, seq, w) \<leftarrow> ping fam os junk pid (targetIp t) t seq w;
           if ok then Some Answered
           else if failStreak t < 9 then Some (Unanswered False)
           else let (t, w) = recreated fam os iface t w
                in map_option Unanswered (gateway_answers fam os junk iface pid t seq w)
         })"

subsection \<open>What is shown\<close>

text \<open>
  The rules the code follows, on histories that have the latest event first. Colours are tested in the
  code's order, blue before yellow, which is not that of the README; its rules are \<open>readme_colour\<close>, below.
\<close>

fun unanswered :: "ping_event \<Rightarrow> bool" where
  "unanswered (Unanswered g) = True"
| "unanswered e = False"

fun streak :: "ping_event list \<Rightarrow> nat" where
  "streak (Unanswered g # h) = Suc (streak h)"
| "streak h = 0"

fun gateway_up :: "ping_event list \<Rightarrow> bool" where
  "gateway_up (Unanswered g # h) = g"
| "gateway_up h = False"

definition pinged :: "ping_event list \<Rightarrow> bool" where
  "pinged h \<longleftrightarrow> (\<exists>e \<in> set h. e \<noteq> Skipped)"

text \<open>
  The protocols that count are those that have been pinged; the code goes on counting one that has lost
  its address since, which the README excludes.
\<close>

definition shown_colour :: "ping_event list \<Rightarrow> ping_event list \<Rightarrow> severity" where
  "shown_colour h4 h6 =
     (let hs = filter pinged [h4, h6]
      in if hs = [] \<or> (\<exists>h \<in> set hs. streak h = 0) then Green
         else if \<exists>h \<in> set hs. gateway_up h then Blue
         else if \<exists>h \<in> set hs. streak h < 10 then Yellow
         else Red)"

text \<open>
  The rules of the README, in its order: green, then yellow for one to nine losses, then blue for ten or
  more with a gateway that responds, and red if none applies.
\<close>

definition readme_colour :: "ping_event list \<Rightarrow> ping_event list \<Rightarrow> severity" where
  "readme_colour h4 h6 =
     (let hs = filter pinged [h4, h6]
      in if \<exists>h \<in> set hs. streak h = 0 then Green
         else if \<exists>h \<in> set hs. 1 \<le> streak h \<and> streak h \<le> 9 then Yellow
         else if \<exists>h \<in> set hs. 10 \<le> streak h \<and> gateway_up h then Blue
         else Red)"

text \<open>
  The code departs from them in two cases: it is green when nothing has been pinged, and blue when one
  protocol is within its first nine losses while the other one reaches its gateway.
\<close>

definition departs :: "ping_event list \<Rightarrow> ping_event list \<Rightarrow> severity option" where
  "departs h4 h6 =
     (let hs = filter pinged [h4, h6]
      in if hs = [] then Some Green
         else if (\<forall>h \<in> set hs. streak h \<noteq> 0) \<and> (\<exists>h \<in> set hs. streak h \<le> 9) \<and> (\<exists>h \<in> set hs. gateway_up h) then Some Blue
         else None)"

lemma shown_against_readme: "shown_colour h4 h6 = (case departs h4 h6 of Some c \<Rightarrow> c | None \<Rightarrow> readme_colour h4 h6)"
  by (cases "pinged h4"; cases "pinged h6") (auto simp: shown_colour_def departs_def readme_colour_def Let_def)

definition shown_glyph :: "ping_event list \<Rightarrow> ping_event list \<Rightarrow> string" where
  "shown_glyph h4 h6 =
     join ''/'' (map snd (filter (\<lambda>(h, tag). pinged h \<and> (streak h = 0 \<or> gateway_up h)) [(h4, ''4''), (h6, ''6'')]))"

definition shown_proto_text :: "ping_event list \<times> string \<Rightarrow> string" where
  "shown_proto_text = (\<lambda>(h, tag).
     if streak h = 0 then tag @ '' connected''
     else tag @ '': '' @ show_int (int (streak h)) @ '' consecutive losses'' @
       (if gateway_up h then '' (gateway reachable)'' else []))"

definition shown_text :: "string \<Rightarrow> ping_event list \<Rightarrow> ping_event list \<Rightarrow> string" where
  "shown_text label h4 h6 =
     (let hs = filter (\<lambda>(h, tag). pinged h) [(h4, ''v4''), (h6, ''v6'')]
      in label @ '': '' @ (if hs = [] then ''no target resolved'' else join '', '' (map shown_proto_text hs)))"

subsection \<open>One protocol\<close>

text \<open>The fields that a history determines.\<close>

definition tells :: "ping_event list \<Rightarrow> proto_track \<Rightarrow> bool" where
  "tells h t \<longleftrightarrow>
     failStreak t = int (streak h) \<and> gatewayReachable t = gateway_up h \<and>
     hasLocalAddress t = pinged h \<and> (pinged h \<longrightarrow> configured t)"

lemma pinged_simps [simp]: "\<not> pinged []" "pinged (e # h) \<longleftrightarrow> e \<noteq> Skipped \<or> pinged h"
  by (auto simp: pinged_def)

lemma not_pinged: "\<not> pinged h \<Longrightarrow> streak h = 0 \<and> \<not> gateway_up h"
  by (cases h rule: streak.cases) simp_all

lemma checkGateway_answers:
  assumes "checkGateway fam os junk iface pid t seq w = Some (t', seq', w')"
  shows "gateway_answers fam os junk iface pid t seq w = Some (gatewayReachable t')"
proof (cases "gatewayMode t = Disabled")
  case True
  with assms show ?thesis by (auto simp: checkGateway_def gateway_answers_def)
next
  case False
  with assms obtain t1 w1 where l: "lookupGateway fam os junk iface t w = Some (t1, w1)"
    by (auto simp: checkGateway_def)
  with assms False show ?thesis
    by (cases "gatewayIp t1 = []") (auto simp: checkGateway_def gateway_answers_def)
qed

text \<open>Every tick has an event, and the event tells what the tick did; first for a lost ping.\<close>

lemma lost_tells:
  assumes "maybeRecheckLocalAddress os iface t (fam_af fam) w = (t1, w1)" and "configured t1" and "hasLocalAddress t1"
    and "ping fam os junk pid (targetIp t1) t1 seq w1 = Some (False, seq2, w2)"
    and "recreated fam os iface t1 w2 = (t3, w3)"
    and "if 10 \<le> failStreak t3 then checkGateway fam os junk iface pid t3 seq2 w3 = Some (t', seq', w')
       else t' = t3 \<and> seq' = seq2 \<and> w' = w3"
    and "track_inv t" and "tells h t"
  shows "\<exists>g. tick_event fam os junk iface pid (t, seq, w) = Some (Unanswered g) \<and> tells (Unanswered g # h) t'"
proof -
  obtain b k where t1: "t1 = t\<lparr>hasLocalAddress := b, recheckTicksLeft := k\<rparr>"
    using maybeRecheck_frame(1) [OF assms(1)] by metis
  obtain fd where t3: "t3 = t1\<lparr>failStreak := failStreak t1 + 1, sock := fd\<rparr>"
    using recreated_frame [OF assms(5)] by metis
  have t: "b" "configured t" "failStreak t = int (streak h)" using assms(2,3,8) by (simp_all add: t1 tells_def)
  show ?thesis
  proof (cases "failStreak t1 < 9")
    case True
    then have t': "t' = t3" using assms(6) by (simp add: t3)
    have "\<not> gatewayReachable t" using assms(7) True by (auto simp: track_inv_def t1)
    then have "tells (Unanswered False # h) t'" using t by (simp add: tells_def t' t3 t1)
    with assms(1-4) True show ?thesis by (intro exI [of _ False]) (simp add: tick_event_def)
  next
    case False
    then have c: "checkGateway fam os junk iface pid t3 seq2 w3 = Some (t', seq', w')"
      using assms(6) by (simp add: t3)
    obtain ip rs re where t': "t' = t3\<lparr>gatewayIp := ip, gatewayResolved := rs, gatewayReachable := re\<rparr>"
      using checkGateway_checked [OF c] unfolding gateway_checked_def by metis
    have "tells (Unanswered re # h) t'" using t by (simp add: tells_def t' t3 t1)
    with assms(1-5) False checkGateway_answers [OF c] show ?thesis
      by (intro exI [of _ re]) (simp add: tick_event_def t')
  qed
qed

lemma tick_tells:
  assumes "tickProto fam os junk iface pid (t, seq, w) = Some (t', seq', w')" and "track_inv t" and "tells h t"
  obtains e where "tick_event fam os junk iface pid (t, seq, w) = Some e" and "tells (e # h) t'"
  using assms(1)
proof (cases rule: tickProto_cases)
  case idle
  obtain b k where t': "t' = t\<lparr>hasLocalAddress := b, recheckTicksLeft := k\<rparr>"
    using maybeRecheck_frame(1) [OF idle(1)] by metis
  have np: "\<not> pinged h"
    using maybeRecheck_frame(2) [OF idle(1)] idle(3) assms(3) by (auto simp: tells_def)
  from maybeRecheck_frame(3) [OF idle(1)] idle(3) np assms(3) have "\<not> b" by (auto simp: tells_def t')
  with np not_pinged [OF np] assms(3) have "tells (Skipped # h) t'" by (simp add: tells_def t')
  moreover have "tick_event fam os junk iface pid (t, seq, w) = Some Skipped"
    using idle(1,3) by (simp add: tick_event_def)
  ultimately show thesis by (rule that [rotated])
next
  case (reply t1 w1)
  have "tells (Answered # h) t'" using reply(2,3,5) by (simp add: tells_def)
  moreover have "tick_event fam os junk iface pid (t, seq, w) = Some Answered"
    using reply(1-4) by (simp add: tick_event_def)
  ultimately show thesis by (rule that [rotated])
next
  case (lost t1 w1 seq2 w2 t3 w3)
  from lost_tells [OF lost assms(2,3)] that show thesis by blast
qed

lemma tells_view:
  assumes "tells h t"
  shows "stateOf t = (if \<not> pinged h then NoLocalAddress else if streak h = 0 then Healthy else Failing)"
    and "severityOf t = (if streak h < 10 then Yellow else if gateway_up h then Blue else Red)"
    and "failStreak t = int (streak h)" and "gatewayReachable t = gateway_up h"
  using assms by (auto simp: tells_def stateOf_def severityOf_def)

text \<open>From the tenth loss on only.\<close>

lemma tells_gateway: "tells h t \<Longrightarrow> track_inv t \<Longrightarrow> gateway_up h \<Longrightarrow> pinged h \<and> 10 \<le> streak h"
  by (auto simp: tells_def track_inv_def)

subsection \<open>The tray\<close>

lemma history_cases:
  assumes "tells h t" and "track_inv t"
  obtains (skipped) "\<not> pinged h" "stateOf t = NoLocalAddress" "severityOf t = Yellow"
  | (healthy) "pinged h" "streak h = 0" "\<not> gateway_up h" "stateOf t = Healthy" "severityOf t = Yellow"
  | (yellow) "pinged h" "streak h \<noteq> 0" "streak h < 10" "\<not> gateway_up h" "stateOf t = Failing" "severityOf t = Yellow"
  | (blue) "pinged h" "streak h \<noteq> 0" "\<not> streak h < 10" "gateway_up h" "stateOf t = Failing" "severityOf t = Blue"
  | (red) "pinged h" "streak h \<noteq> 0" "\<not> streak h < 10" "\<not> gateway_up h" "stateOf t = Failing" "severityOf t = Red"
proof (cases "pinged h")
  case False
  with tells_view [OF assms(1)] not_pinged [OF False] skipped show thesis by simp
next
  case True
  note v = tells_view [OF assms(1)] and g = tells_gateway [OF assms]
  show thesis
  proof (cases "streak h < 10")
    case True
    with g have "\<not> gateway_up h" by linarith
    with True \<open>pinged h\<close> v healthy yellow show thesis by (cases "streak h = 0") simp_all
  next
    case False
    then have "streak h \<noteq> 0" by linarith
    with False \<open>pinged h\<close> v blue red show thesis by (cases "gateway_up h") simp_all
  qed
qed

lemma tells_shown:
  assumes "tells h4 v4" and "track_inv v4" and "tells h6 v6" and "track_inv v6"
  shows "colour_of v4 v6 = shown_colour h4 h6" and "glyph_of v4 v6 = shown_glyph h4 h6"
    and "status_of label v4 v6 = shown_text label h4 h6"
proof -
  note defs = colour_of_def worstSeverityOf_def shown_colour_def glyph_of_def glyphFor_def shown_glyph_def
    status_of_def statusTextFor_def protoStatusText_def shown_text_def shown_proto_text_def
  note n = tells_view(3,4) [OF assms(1)] tells_view(3,4) [OF assms(3)]
  show "colour_of v4 v6 = shown_colour h4 h6"
    by (rule history_cases [OF assms(1,2)]; rule history_cases [OF assms(3,4)]; simp add: defs)
  show "glyph_of v4 v6 = shown_glyph h4 h6"
    by (rule history_cases [OF assms(1,2)]; rule history_cases [OF assms(3,4)]; simp add: defs)
  show "status_of label v4 v6 = shown_text label h4 h6"
    by (rule history_cases [OF assms(1,2)]; rule history_cases [OF assms(3,4)]; simp add: defs n)
qed

text \<open>
  The monitors of a program started in any way, with what has happened to IPv4 and IPv6 since; the
  world may change in any way between the ticks.
\<close>

inductive monitor_history ::
  "qt \<Rightarrow> 'w os \<Rightarrow> ('w \<Rightarrow> buf) \<Rightarrow> ping_event list \<Rightarrow> ping_event list \<Rightarrow> monitor \<Rightarrow> bool" for q os junk where
  created: "newPingMonitor q os iface target target6 label g4 g6 w = (mon, w') \<Longrightarrow> monitor_history q os junk [] [] mon"
| ticked: "monitor_history q os junk h4 h6 mon \<Longrightarrow>
    tick_event inet4 os junk (m_iface mon) (m_pid mon) (m_v4 mon, m_seq4 mon, w) = Some e4 \<Longrightarrow>
    tickV4 os junk (mon, w) = Some (mon1, w1) \<Longrightarrow>
    tick_event inet6 os junk (m_iface mon1) (m_pid mon1) (m_v6 mon1, m_seq6 mon1, w1) = Some e6 \<Longrightarrow>
    monitor_tick q os junk (mon, w) = Some (mon', w') \<Longrightarrow>
    monitor_history q os junk (e4 # h4) (e6 # h6) mon'"

lemma initial_tells: "initial_track t \<Longrightarrow> tells [] t"
  by (simp add: initial_track_def tells_def)

text \<open>A tick of the monitor extends the histories it has by one event each.\<close>

lemma monitor_tick_tells:
  assumes "monitor_tick q os junk (mon, w) = Some (mon', w')" and "monitor_inv q mon"
    and "tells h4 (m_v4 mon)" and "tells h6 (m_v6 mon)"
  obtains e4 mon1 w1 e6 where
    "tick_event inet4 os junk (m_iface mon) (m_pid mon) (m_v4 mon, m_seq4 mon, w) = Some e4"
    "tickV4 os junk (mon, w) = Some (mon1, w1)"
    "tick_event inet6 os junk (m_iface mon1) (m_pid mon1) (m_v6 mon1, m_seq6 mon1, w1) = Some e6"
    "tells (e4 # h4) (m_v4 mon')" "tells (e6 # h6) (m_v6 mon')"
proof -
  from monitor_tick_parts [OF assms(1)] obtain v4 s4 w1 v6 s6 where
    t4: "tickProto inet4 os junk (m_iface mon) (m_pid mon) (m_v4 mon, m_seq4 mon, w) = Some (v4, s4, w1)"
    and t6: "tickProto inet6 os junk (m_iface mon) (m_pid mon) (m_v6 mon, m_seq6 mon, w1) = Some (v6, s6, w')"
    and mon': "mon' = (let mon1 = mon\<lparr>m_v4 := v4, m_seq4 := s4, m_v6 := v6, m_seq6 := s6\<rparr>; state = tick_state_of v4 v6
             in if state \<noteq> m_lastTickState mon then renderTray q (mon1\<lparr>m_lastTickState := state\<rparr>) else mon1)" .
  have v: "m_v4 mon' = v4" "m_v6 mon' = v6" by (simp_all add: mon' Let_def renderTray_frame)
  have i: "track_inv (m_v4 mon)" "track_inv (m_v6 mon)" using assms(2) by (simp_all add: monitor_inv_def)
  from tick_tells [OF t4 i(1) assms(3)] obtain e4 where
    e4: "tick_event inet4 os junk (m_iface mon) (m_pid mon) (m_v4 mon, m_seq4 mon, w) = Some e4" "tells (e4 # h4) v4" .
  from tick_tells [OF t6 i(2) assms(4)] obtain e6 where
    e6: "tick_event inet6 os junk (m_iface mon) (m_pid mon) (m_v6 mon, m_seq6 mon, w1) = Some e6" "tells (e6 # h6) v6" .
  have "tickV4 os junk (mon, w) = Some (mon\<lparr>m_v4 := v4, m_seq4 := s4\<rparr>, w1)" by (simp add: tickV4_eq t4)
  from that [OF e4(1) this] e4(2) e6 show thesis by (simp add: v)
qed

lemma monitor_history_tells:
  "monitor_history q os junk h4 h6 mon \<Longrightarrow>
   monitor_inv q mon \<and> tells h4 (m_v4 mon) \<and> tells h6 (m_v6 mon)"
proof (induction rule: monitor_history.induct)
  case (created iface target target6 label g4 g6 w mon w')
  from newPingMonitor_inv(1,3,4) [OF created] initial_tells show ?case by simp
next
  case (ticked h4 h6 mon w e4 mon1 w1 e6 mon' w')
  note ih = ticked.IH [THEN conjunct1] ticked.IH [THEN conjunct2, THEN conjunct1] ticked.IH [THEN conjunct2, THEN conjunct2]
  obtain e4' mon1' w1' e6' where e:
    "tick_event inet4 os junk (m_iface mon) (m_pid mon) (m_v4 mon, m_seq4 mon, w) = Some e4'"
    "tickV4 os junk (mon, w) = Some (mon1', w1')"
    "tick_event inet6 os junk (m_iface mon1') (m_pid mon1') (m_v6 mon1', m_seq6 mon1', w1') = Some e6'"
    and t: "tells (e4' # h4) (m_v4 mon')" "tells (e6' # h6) (m_v6 mon')"
    by (rule monitor_tick_tells [OF ticked.hyps(5) ih])
  have "e4' = e4" "mon1' = mon1" "w1' = w1" using e(1,2) ticked.hyps(2,3) by simp_all
  with e(3) ticked.hyps(4) have "e6' = e6" by simp
  with t \<open>e4' = e4\<close> monitor_tick_inv [OF ih(1) ticked.hyps(5)] show ?case by simp
qed

text \<open>Every monitor the program can be at has a history.\<close>

lemma reachable_has_history:
  "monitor_reachable q os junk mon \<longleftrightarrow> (\<exists>h4 h6. monitor_history q os junk h4 h6 mon)"
proof
  show "monitor_reachable q os junk mon \<Longrightarrow> \<exists>h4 h6. monitor_history q os junk h4 h6 mon"
  proof (induction rule: monitor_reachable.induct)
    case (created iface target target6 label g4 g6 w mon w')
    show ?case by (intro exI, rule monitor_history.created [OF created])
  next
    case (ticked mon w mon' w')
    then obtain h4 h6 where h: "monitor_history q os junk h4 h6 mon" by blast
    from monitor_history_tells [OF h] have i: "monitor_inv q mon" "tells h4 (m_v4 mon)" "tells h6 (m_v6 mon)" by simp_all
    obtain e4 mon1 w1 e6 where e:
      "tick_event inet4 os junk (m_iface mon) (m_pid mon) (m_v4 mon, m_seq4 mon, w) = Some e4"
      "tickV4 os junk (mon, w) = Some (mon1, w1)"
      "tick_event inet6 os junk (m_iface mon1) (m_pid mon1) (m_v6 mon1, m_seq6 mon1, w1) = Some e6"
      by (rule monitor_tick_tells [OF ticked.hyps(2) i])
    from monitor_history.ticked [OF h e ticked.hyps(2)] show ?case by blast
  qed
next
  assume "\<exists>h4 h6. monitor_history q os junk h4 h6 mon"
  then obtain h4 h6 where "monitor_history q os junk h4 h6 mon" by blast
  then show "monitor_reachable q os junk mon"
    by (induction rule: monitor_history.induct) (rule monitor_reachable.created monitor_reachable.ticked, assumption+)+
qed

lemma newPingMonitor_names:
  assumes "newPingMonitor q os iface target target6 label g4 g6 w = (mon, w')"
  shows "m_label mon = label" and "m_iface mon = iface" and "m_ifaceTag mon = shortIfaceTag q iface"
proof -
  from newPingMonitor_parts [OF assms] obtain m0 where mon: "mon = (setupTray q m0)\<lparr>m_v4 := m_v4 mon, m_v6 := m_v6 mon\<rparr>"
    and m0: "m0 = (initial_monitor iface label)\<lparr>m_pid := of_nat (sys_getpid os w), m_ifaceTag := shortIfaceTag q iface,
       m_v4 := m_v4 m0, m_v6 := m_v6 m0\<rparr>" .
  have "m_label m0 = label" "m_iface m0 = iface" "m_ifaceTag m0 = shortIfaceTag q iface"
    by (subst m0, simp add: initial_monitor_def)+
  then show "m_label mon = label" and "m_iface mon = iface" and "m_ifaceTag mon = shortIfaceTag q iface"
    by (subst mon, simp add: setupTray_def Let_def renderTray_frame)+
qed

text \<open>A running tray keeps the interface and the label of its arguments.\<close>

lemma tray_runs_names:
  "tray_runs q os junk qapp avail argv mon \<Longrightarrow> qapp argv = [prog, iface, target, target6, label, g4, g6] \<Longrightarrow>
   m_label mon = label \<and> m_iface mon = iface \<and> m_ifaceTag mon = shortIfaceTag q iface"
proof (induction rule: tray_runs.induct)
  case (started w mon w')
  then have "newPingMonitor q os iface target target6 label g4 g6 w = (mon, w')"
    by (auto simp: tray_main_def tray_argsValid_def Let_def split: prod.splits if_splits)
  from newPingMonitor_names [OF this] show ?case by simp
next
  case (ticked mon w mon' w')
  with monitor_tick_modes(3-5) [OF ticked.hyps(2)] show ?case by simp
qed

lemma history_shown:
  assumes "monitor_history q os junk h4 h6 mon"
  shows "last_of (icons_set (m_tray mon)) =
      Some (paintIcon (qt_ink q) (m_ifaceTag mon) (shown_colour h4 h6) (shown_glyph h4 h6))"
    and "last_of (texts_set (m_tray mon)) = Some (shown_text (m_label mon) h4 h6)"
    and "last_of (tooltips_set (m_tray mon)) = Some (shown_text (m_label mon) h4 h6)"
proof -
  from monitor_history_tells [OF assms] have inv: "monitor_inv q mon" and t: "tells h4 (m_v4 mon)" "tells h6 (m_v6 mon)"
    by simp_all
  have i: "track_inv (m_v4 mon)" "track_inv (m_v6 mon)" using inv by (simp_all add: monitor_inv_def)
  note s = tells_shown [OF t(1) i(1) t(2) i(2)]
  show "last_of (icons_set (m_tray mon)) =
      Some (paintIcon (qt_ink q) (m_ifaceTag mon) (shown_colour h4 h6) (shown_glyph h4 h6))"
    and "last_of (texts_set (m_tray mon)) = Some (shown_text (m_label mon) h4 h6)"
    and "last_of (tooltips_set (m_tray mon)) = Some (shown_text (m_label mon) h4 h6)"
    using inv by (simp_all add: monitor_inv_def shows_state_def icon_of_def s)
qed

subsection \<open>Properties\<close>

text \<open>C3: What the tray shows is a function of what has happened to the pings, and of nothing else: every state the
  monitor can reach has a history for each protocol, and whatever it is, the icon last set has the colour
  and glyph, and the status entry and the tool tip last set have the text, that the code's rules give for the
  histories. The colour is the README's (its rules taken in its order, over the protocols that have been
  pinged, a lost address notwithstanding) but for two departures: green when nothing has been pinged, and blue, not yellow, when
  one protocol is within its first nine losses, none is healthy and the other one reaches its gateway.\<close>

theorem tray_shows_history:
  "(monitor_reachable q os junk mon \<longleftrightarrow> (\<exists>h4 h6. monitor_history q os junk h4 h6 mon)) \<and>
   (\<forall>h4 h6. monitor_history q os junk h4 h6 mon \<longrightarrow>
     last_of (icons_set (m_tray mon)) =
       Some (paintIcon (qt_ink q) (m_ifaceTag mon) (shown_colour h4 h6) (shown_glyph h4 h6)) \<and>
     last_of (texts_set (m_tray mon)) = Some (shown_text (m_label mon) h4 h6) \<and>
     last_of (tooltips_set (m_tray mon)) = Some (shown_text (m_label mon) h4 h6) \<and>
     shown_colour h4 h6 = (case departs h4 h6 of Some c \<Rightarrow> c | None \<Rightarrow> readme_colour h4 h6))"
  by (intro conjI allI impI reachable_has_history history_shown shown_against_readme)

theorem tray_shows_history_witness:
  "\<exists>mon :: monitor. last_of (texts_set (m_tray mon)) = Some ''WiFi: v4: 1 consecutive losses'' \<and>
     last_of (icons_set (m_tray mon)) = Some (paintIcon (qt_ink ascii_qt) (m_ifaceTag mon) Yellow [])"
proof -
  let ?j = "\<lambda>_ _. 0"
  let ?t = "new_track\<lparr>targetIp := ''4tttt'', configured := True, sock := 5\<rparr>"
  let ?t1 = "?t\<lparr>failStreak := 1, hasLocalAddress := True, recheckTicksLeft := 10\<rparr>"
  note lab = maybeRecheckLocalAddress_def new_track_def lab_ping Let_def ifaceHasAddress_def matchesIfaceAddress_def
    inet4_def [THEN arg_cong [of _ _ fam_af]]
  have t1: "tickProto inet4 lab_os ?j ''wlan0'' 7 (?t, seq, [None]) = Some (?t1, seq + 1, [])" for seq
    by (simp add: tickProto_def lab)
  have e4: "tick_event inet4 lab_os ?j ''wlan0'' 7 (?t, seq, [None]) = Some (Unanswered False)" for seq
    by (simp add: tick_event_def lab)
  have e6: "tick_event inet6 lab_os ?j i p (new_track, seq, w) = Some Skipped" for i p seq w
    by (simp add: tick_event_def maybeRecheckLocalAddress_def new_track_def)
  from lab_monitor obtain mon0 w where
    n: "newPingMonitor ascii_qt lab_os ''wlan0'' ''4tttt'' [] ''WiFi'' [] [] [] = (mon0, w)"
    and m0: "m_v4 mon0 = ?t" "m_v6 mon0 = new_track" "m_pid mon0 = 7" "m_iface mon0 = ''wlan0''" by blast
  from v4_only_tick [OF m0(2), unfolded m0, OF t1, of ascii_qt] obtain mon1 where
    r1: "monitor_tick ascii_qt lab_os ?j (mon0, [None]) = Some (mon1, [])" by blast
  have v: "tickV4 lab_os ?j (mon0, [None]) = Some (mon0\<lparr>m_v4 := ?t1, m_seq4 := m_seq4 mon0 + 1\<rparr>, [])"
    by (simp add: tickV4_eq m0 t1)
  have "monitor_history ascii_qt lab_os ?j [Unanswered False] [Skipped] mon1"
    by (rule monitor_history.ticked [OF monitor_history.created [OF n] _ v _ r1]) (simp_all add: m0 e4 e6)
  with tray_shows_history [of ascii_qt lab_os ?j mon1]
  have s: "last_of (texts_set (m_tray mon1)) = Some (shown_text (m_label mon1) [Unanswered False] [Skipped])"
    "last_of (icons_set (m_tray mon1)) = Some (paintIcon (qt_ink ascii_qt) (m_ifaceTag mon1)
       (shown_colour [Unanswered False] [Skipped]) (shown_glyph [Unanswered False] [Skipped]))" by blast+
  have "m_label mon1 = ''WiFi''"
    using monitor_tick_modes(4) [OF r1] newPingMonitor_names(1) [OF n] by simp
  moreover have one: "show_int 1 = ''1''" unfolding show_int_def by (simp add: show_nat.simps) code_simp
  moreover have "shown_text ''WiFi'' [Unanswered False] [Skipped] = ''WiFi: v4: 1 consecutive losses''"
    by (simp add: shown_text_def shown_proto_text_def one)
  moreover have "shown_colour [Unanswered False] [Skipped] = Yellow" "shown_glyph [Unanswered False] [Skipped] = []"
    by (simp_all add: shown_colour_def shown_glyph_def)
  ultimately show ?thesis using s by (intro exI [of _ mon1]) simp
qed

end
