(* ===== verification/Tray_Unresolved.thy ===== *)
theory Tray_Unresolved
  imports Tray_History
begin

section \<open>A tray without a target (ping_monitor.cpp)\<close>

text \<open>
  Targets are resolved once, when the tray starts, which is when its interface comes up. This theory
  follows a tray whose target could not be resolved then; what the name service answers later is open.
\<close>

text \<open>The lookups that the constructor makes give nothing it can use.\<close>

definition unresolved_at :: "'w os \<Rightarrow> string \<Rightarrow> string \<Rightarrow> 'w \<Rightarrow> bool" where
  "unresolved_at os target target6 w \<longleftrightarrow>
     (let (r, w1) = resolveTargets os target w
      in r = no_targets \<and> (target6 = [] \<or> rt_v6 (fst (resolveTargets os target6 w1)) = None))"

text \<open>A monitor and what its ticks make of it; the world changes freely in between.\<close>

inductive ticks_to :: "qt \<Rightarrow> 'w os \<Rightarrow> ('w \<Rightarrow> buf) \<Rightarrow> monitor \<Rightarrow> monitor \<Rightarrow> bool" for q os junk mon0 where
  start: "ticks_to q os junk mon0 mon0"
| tick: "ticks_to q os junk mon0 mon \<Longrightarrow> monitor_tick q os junk (mon, w) = Some (mon', w') \<Longrightarrow>
    ticks_to q os junk mon0 mon'"

lemma ticks_to_runs:
  assumes "tray_main q os qapp avail argv w = (Inr mon0, w0)"
  shows "ticks_to q os junk mon0 mon \<Longrightarrow> tray_runs q os junk qapp avail argv mon"
  by (induction rule: ticks_to.induct) (rule tray_runs.started [OF assms], rule tray_runs.ticked)

lemma unresolved_initial:
  assumes "unresolved_at os target target6 w" and "resolveInitialTargets os target target6 (mon, w) = (mon', w')"
    and "\<not> configured (m_v4 mon)" and "\<not> configured (m_v6 mon)"
  shows "\<not> configured (m_v4 mon') \<and> \<not> configured (m_v6 mon')"
proof -
  obtain r w1 where r: "resolveTargets os target w = (r, w1)" by (rule prod.exhaust)
  obtain r6 w2 where r6: "resolveTargets os target6 w1 = (r6, w2)" by (rule prod.exhaust)
  have "r = no_targets" "target6 = [] \<or> rt_v6 r6 = None"
    using assms(1) by (simp_all add: unresolved_at_def r r6)
  then show ?thesis
    using assms(2-4) by (auto simp: resolveInitialTargets_def r r6 no_targets_def split: if_splits)
qed

lemma tick_unconfigured:
  assumes "\<not> configured t"
  shows "tickProto fam os junk iface pid (t, seq, w) = Some (t, seq, w)"
  using assms by (simp add: tickProto_def maybeRecheckLocalAddress_def)

lemma monitor_tick_unconfigured:
  assumes "\<not> configured (m_v4 mon)" and "\<not> configured (m_v6 mon)"
  shows "\<exists>mon'. monitor_tick q os junk (mon, w) = Some (mon', w) \<and> m_v4 mon' = m_v4 mon \<and> m_v6 mon' = m_v6 mon"
  using assms by (auto simp: monitor_tick_def tickV4_eq tickV6_eq tick_unconfigured Let_def renderTray_frame)

lemma unresolved_start:
  assumes "tray_main q os qapp avail argv w = (Inr mon, w')" and "qapp argv = [prog, iface, target, target6, label, g4, g6]"
    and "unresolved_at os target target6 w"
  shows "\<not> configured (m_v4 mon) \<and> \<not> configured (m_v6 mon)"
proof -
  have n: "newPingMonitor q os iface target target6 label g4 g6 w = (mon, w')"
    using assms(1,2) by (auto simp: tray_main_def tray_argsValid_def Let_def split: prod.splits if_splits)
  let ?i = "(initial_monitor iface label)\<lparr>m_pid := of_nat (sys_getpid os w), m_ifaceTag := shortIfaceTag q iface\<rparr>"
  from newPingMonitor_resolved [OF n] obtain m1 w1 x y where
    r: "resolveInitialTargets os target target6 (?i, w) = (m1, w1)"
    and v: "m_v4 mon = (applyGatewayOverride (m_v4 m1) g4)\<lparr>sock := x\<rparr>"
      "m_v6 mon = (applyGatewayOverride (m_v6 m1) g6)\<lparr>sock := y\<rparr>" .
  have "\<not> configured (m_v4 ?i)" "\<not> configured (m_v6 ?i)" by (simp_all add: initial_monitor_def new_track_def)
  from unresolved_initial [OF assms(3) r this] v show ?thesis by (simp add: applyGatewayOverride_facts)
qed

lemma unconfigured_stays:
  "ticks_to q os junk mon0 mon \<Longrightarrow> \<not> configured (m_v4 mon0) \<Longrightarrow> \<not> configured (m_v6 mon0) \<Longrightarrow>
   \<not> configured (m_v4 mon) \<and> \<not> configured (m_v6 mon)"
proof (induction rule: ticks_to.induct)
  case (tick mon w mon' w')
  then have c: "\<not> configured (m_v4 mon)" "\<not> configured (m_v6 mon)" by simp_all
  from monitor_tick_unconfigured [OF c, of q os junk w] tick.hyps(2) c show ?case by auto
qed simp

subsection \<open>Properties\<close>

text \<open>C14: A tray, started with all of its arguments, for which the lookups of its target and its IPv6 target, made when it starts, give nothing shows a
  green icon without a glyph, and the text that no target was resolved, for as long as it runs; its ticks
  make no system call at all: it neither pings anything nor looks a target up again, although the name
  service may answer by then and whatever becomes of the interface and the network.\<close>

theorem unresolved_target_stays_green:
  assumes "tray_main q os qapp avail argv w0 = (Inr mon0, w1)" and "qapp argv = [prog, iface, target, target6, label, g4, g6]"
    and "unresolved_at os target target6 w0" and "ticks_to q os junk mon0 mon"
  shows "last_of (icons_set (m_tray mon)) = Some (paintIcon (qt_ink q) (shortIfaceTag q iface) Green []) \<and>
    last_of (texts_set (m_tray mon)) = Some (label @ '': no target resolved'') \<and>
    (\<exists>mon'. monitor_tick q os junk (mon, w) = Some (mon', w))"
proof -
  from unresolved_start [OF assms(1-3)] unconfigured_stays [OF assms(4)]
  have c: "\<not> configured (m_v4 mon)" "\<not> configured (m_v6 mon)" by simp_all
  note runs = ticks_to_runs [OF assms(1,4)]
  have inv: "monitor_inv q mon" using monitor_reachable_inv [OF tray_runs_reachable [OF runs]] by blast
  then have i: "track_inv (m_v4 mon)" "track_inv (m_v6 mon)" by (simp_all add: monitor_inv_def)
  have a: "\<not> active (m_v4 mon)" "\<not> active (m_v6 mon)" using c by (simp_all add: active_def)
  have "colour_of (m_v4 mon) (m_v6 mon) = Green" using colour_cases [OF i] a by simp
  moreover have "stateOf (m_v4 mon) = NoLocalAddress" "stateOf (m_v6 mon) = NoLocalAddress"
    using c by (simp_all add: stateOf_def)
  moreover have "severityOf (m_v4 mon) = Yellow" "severityOf (m_v6 mon) = Yellow"
    using a by (auto intro: track_view [OF i(1)] track_view [OF i(2)])
  ultimately show ?thesis
    using inv tray_runs_names [OF runs assms(2)] monitor_tick_unconfigured [OF c, of q os junk w]
    by (auto simp: monitor_inv_def shows_state_def icon_of_def glyph_of_def glyphFor_def status_of_def statusTextFor_def)
qed

text \<open>A platform whose name service answers in some worlds only.\<close>

definition late_os :: "bool os" where
  "late_os = dns_os\<lparr>sys_getaddrinfo := (\<lambda>h w. if w then sys_getaddrinfo dns_os h w else (None, w))\<rparr>"

lemma late_os_lookup:
  "resolveTargets late_os ''host'' False = (no_targets, False)"
  "rt_v4 (fst (resolveTargets late_os ''host'' True)) = Some ''4aaaa''"
  by (simp_all add: resolveTargets_def tryLiteral_def resolveViaDns_def late_os_def dns_os_def collectAddresses_first
      no_targets_def)

theorem unresolved_target_stays_green_witness:
  "\<exists>mon0 mon. fst (tray_main ascii_qt late_os (\<lambda>a. a) True
      [''conwatch-tray'', ''wlan0'', ''host'', [], ''WiFi'', [], []] False) = Inr mon0 \<and>
    monitor_tick ascii_qt late_os (\<lambda>_ _. 0) (mon0, True) = Some (mon, True) \<and>
    last_of (texts_set (m_tray mon)) = Some ''WiFi: no target resolved''"
proof -
  let ?argv = "[''conwatch-tray'', ''wlan0'', ''host'', [], ''WiFi'', [], []]"
  have u: "unresolved_at late_os ''host'' [] False" by (simp add: unresolved_at_def late_os_lookup)
  obtain mon0 w1 where m: "tray_main ascii_qt late_os (\<lambda>a. a) True ?argv False = (Inr mon0, w1)"
    by (auto simp: tray_main_def tray_argsValid_def Let_def case_prod_unfold)
  from unresolved_target_stays_green [OF m refl u ticks_to.start] obtain mon where
    t: "monitor_tick ascii_qt late_os (\<lambda>_ _. 0) (mon0, True) = Some (mon, True)" by blast
  from unresolved_target_stays_green [OF m refl u ticks_to.tick [OF ticks_to.start t]] m t show ?thesis by auto
qed

end
