(* ===== verification/Repository_Tests.thy ===== *)
theory Repository_Tests
  imports Config_Resolve Gateway_Override Gateway_Resolver Target_Resolve
begin

section \<open>The test cases of the repository (tests/)\<close>

text \<open>
  What the repository's tests expect, stated of the model. The assertions of a test case are one
  lemma; \<open>fnmatch\<close> is any function with the documented behaviour, a YAML document is the tree it
  parses to, and \<open>inet_pton\<close> is any function that takes the literals for what they are. The test case of
  \<open>ensureConfigExists\<close> is contained in the properties of \<open>Config_File\<close>.
\<close>

subsection \<open>config_eligibility_test.cpp\<close>

lemma fnmatch_prefix: "fnmatch_laws fnm \<Longrightarrow> plain p \<Longrightarrow> fnm (p @ ''*'') s = prefix p s"
  and fnmatch_plain: "fnmatch_laws fnm \<Longrightarrow> plain p \<Longrightarrow> fnm p s = (p = s)"
  by (simp_all add: fnmatch_laws_def)

lemma fnmatch_used:
  assumes "fnmatch_laws fnm"
  shows "fnm ''*'' s" and "fnm ''docker*'' s = prefix ''docker'' s" and "fnm ''veth*'' s = prefix ''veth'' s"
    and "fnm ''wg*'' s = prefix ''wg'' s" and "fnm ''lo'' s = (s = ''lo'')" and "fnm ''wlan0'' s = (s = ''wlan0'')"
  using fnmatch_prefix [OF assms, of "[]"] fnmatch_prefix [OF assms, of "''docker''"]
    fnmatch_prefix [OF assms, of "''veth''"] fnmatch_prefix [OF assms, of "''wg''"]
    fnmatch_plain [OF assms, of "''lo''"] fnmatch_plain [OF assms, of "''wlan0''"]
  by (auto simp: plain_def)

lemma eligibility_EmptyIncludeExclude:
  "isEligible fnm new_config ''wlan0'' \<and> isEligible fnm new_config ''lo''"
  by (simp add: isEligible_def new_config_def)

lemma eligibility_ExcludeGlobBlocksMatches:
  assumes "fnmatch_laws fnm" and "cfg = new_config\<lparr>exclude_pats := [''lo'', ''docker*'', ''veth*'']\<rparr>"
  shows "\<not> isEligible fnm cfg ''lo'' \<and> \<not> isEligible fnm cfg ''docker0'' \<and>
    \<not> isEligible fnm cfg ''veth1234'' \<and> isEligible fnm cfg ''wlan0''"
  by (simp add: assms(2) isEligible_def new_config_def fnmatch_used [OF assms(1)])

lemma eligibility_IncludeGlobIsAllowList:
  assumes "fnmatch_laws fnm" and "cfg = new_config\<lparr>include_pats := [''wg*'', ''wlan0'']\<rparr>"
  shows "isEligible fnm cfg ''wg0'' \<and> isEligible fnm cfg ''wlan0'' \<and> \<not> isEligible fnm cfg ''eth0''"
  by (simp add: assms(2) isEligible_def new_config_def fnmatch_used [OF assms(1)])

lemma eligibility_IncludeTakesPrecedence:
  assumes "fnmatch_laws fnm" and "cfg = new_config\<lparr>include_pats := [''wg*''], exclude_pats := [''*'']\<rparr>"
  shows "isEligible fnm cfg ''wg0'' \<and> \<not> isEligible fnm cfg ''eth0''"
  by (simp add: assms(2) isEligible_def new_config_def fnmatch_used [OF assms(1)])

lemma eligibility_WildcardIncludeIsNoop:
  assumes "fnmatch_laws fnm" and "cfg = new_config\<lparr>include_pats := [''*''], exclude_pats := [''docker*'']\<rparr>"
  shows "\<not> isEligible fnm cfg ''docker0'' \<and> isEligible fnm cfg ''wlan0''"
  by (simp add: assms(2) isEligible_def new_config_def fnmatch_used [OF assms(1)])

subsection \<open>config_load_test.cpp\<close>

lemma config_LoadsDefaultsForMissingKeys:
  "loadConfig (tree_yaml (Y_map [])) path = Returned new_config"
  by (simp add: load_defs tree_yaml_def validatePrecedence_def)

lemma config_ParsesIncludeExcludeAndOverrides:
  "loadConfig (tree_yaml (Y_map
     [(Y_scalar ''default_target'', Y_scalar ''9.9.9.9''), (Y_scalar ''include'', Y_seq []),
      (Y_scalar ''exclude'', Y_seq [Y_scalar ''lo'', Y_scalar ''docker*'']),
      (Y_scalar ''interfaces'', Y_map [(Y_scalar ''wg0'',
         Y_map [(Y_scalar ''label'', Y_scalar ''VPN''), (Y_scalar ''target'', Y_scalar ''10.0.0.1'')])])])) path =
   Returned (new_config\<lparr>defaultTarget := ''9.9.9.9'', exclude_pats := [''lo'', ''docker*''],
     interfaces := [''wg0'' \<mapsto> new_override\<lparr>ov_label := ''VPN'', ov_target := Some ''10.0.0.1''\<rparr>]\<rparr>)"
  by (simp add: load_defs tree_yaml_def validatePrecedence_def)

lemma config_ParsesGatewayIpOverrides:
  "loadConfig (tree_yaml (Y_map [(Y_scalar ''interfaces'', Y_map [(Y_scalar ''wg0'',
       Y_map [(Y_scalar ''label'', Y_scalar ''VPN''), (Y_scalar ''gateway_ip_override4'', Y_scalar ''10.0.100.1''),
              (Y_scalar ''gateway_ip_override6'', Y_scalar ''none'')])])])) path =
   Returned (new_config\<lparr>interfaces := [''wg0'' \<mapsto> new_override\<lparr>ov_label := ''VPN'',
     ov_gatewayIpOverride4 := Some ''10.0.100.1'', ov_gatewayIpOverride6 := Some ''none''\<rparr>]\<rparr>)"
  by (simp add: load_defs tree_yaml_def validatePrecedence_def)

lemma config_BothIncludeAndExcludeIsFatal:
  "loadConfig (tree_yaml (Y_map [(Y_scalar ''include'', Y_seq [Y_scalar ''wg*'']),
     (Y_scalar ''exclude'', Y_seq [Y_scalar ''docker*''])])) path = Exited 1"
  by (simp add: load_defs tree_yaml_def validatePrecedence_def)

subsection \<open>config_resolve_test.cpp\<close>

lemmas resolve_defs = resolveTarget_def resolveTarget6_def resolveLabel_def resolveGatewayIpOverride4_def
  resolveGatewayIpOverride6_def new_config_def new_override_def

lemma resolve_TargetAndLabelFallBackToDefaults:
  assumes "cfg = new_config\<lparr>interfaces := [''wg0'' \<mapsto> new_override\<lparr>ov_label := ''VPN'', ov_target := Some ''10.10.0.1''\<rparr>]\<rparr>"
  shows "resolveTarget cfg ''wg0'' = ''10.10.0.1'' \<and> resolveLabel cfg ''wg0'' = ''VPN'' \<and>
    resolveTarget cfg ''wlan0'' = ''1.1.1.1'' \<and> resolveLabel cfg ''wlan0'' = ''wlan0''"
  by (simp add: assms resolve_defs)

lemma resolve_GatewayIpOverrideFallsBackToEmpty:
  assumes "cfg = new_config\<lparr>interfaces :=
    [''wg0'' \<mapsto> new_override\<lparr>ov_label := ''VPN'', ov_gatewayIpOverride4 := Some ''10.0.100.1''\<rparr>]\<rparr>"
  shows "resolveGatewayIpOverride4 cfg ''wg0'' = ''10.0.100.1'' \<and> resolveGatewayIpOverride6 cfg ''wg0'' = [] \<and>
    resolveGatewayIpOverride4 cfg ''wlan0'' = []"
  by (simp add: assms resolve_defs)

lemma resolve_Target6FallsBack:
  assumes "cfg = new_config\<lparr>defaultTarget6 := Some ''2606:4700:4700::1111'',
    interfaces := [''wg0'' \<mapsto> new_override\<lparr>ov_label := ''VPN'', ov_target6 := Some ''fd00::1''\<rparr>]\<rparr>"
  shows "resolveTarget6 cfg ''wg0'' = ''fd00::1'' \<and> resolveTarget6 cfg ''wlan0'' = ''2606:4700:4700::1111'' \<and>
    resolveTarget6 new_config ''wlan0'' = []"
  by (simp add: assms resolve_defs)

subsection \<open>gateway_override_test.cpp\<close>

lemma override_EmptyValueIsAuto: "GatewayOverride [] = \<lparr>go_mode = Auto, go_fixedIp = []\<rparr>"
  by (simp add: GatewayOverride_def)

lemma override_NoneSentinelIsDisabled:
  "go_mode (GatewayOverride ''none'') = Disabled \<and> go_mode (GatewayOverride ''None'') = Disabled"
  unfolding GatewayOverride_def DisabledSentinel_def none_spellings by simp

lemma override_LiteralIsFixed:
  "GatewayOverride ''10.0.100.1'' = \<lparr>go_mode = Fixed, go_fixedIp = ''10.0.100.1''\<rparr>"
  "GatewayOverride ''fd00::1'' = \<lparr>go_mode = Fixed, go_fixedIp = ''fd00::1''\<rparr>"
  unfolding GatewayOverride_def DisabledSentinel_def none_spellings by simp_all

subsection \<open>gateway_resolve_test.cpp\<close>

lemma gateway_NonexistentInterfaceReturnsUnset:
  assumes "sys_if_nametoindex os ''this-iface-should-not-exist0'' w = (0, w1)"
  shows "resolveGateway os m ''this-iface-should-not-exist0'' family w = Some (None, w1)"
  by (simp add: assms resolveGateway_def new_gateway_resolver_def gr_resolve_def to_i32_def)

text \<open>Whatever routes the kernel lists, none of them is a default route through \<open>lo\<close>.\<close>

lemma gateway_LoopbackHasNoDefaultRoute:
  assumes "sys_if_nametoindex os ''lo'' w = (1, w1)"
    and "sys_socket os AF_NETLINK SOCK_RAW NETLINK_ROUTE w1 = (fd, w2)" and "0 \<le> fd"
    and "sys_send os fd (buildRequest \<lparr>gr_family = family, gr_ifindex = 1\<rparr>) w2 = (28, w3)"
    and "route_dump os fd fss w3 w4"
    and "dump_gateways os \<lparr>gr_family = family, gr_ifindex = 1\<rparr> (concat fss) = []"
  shows "resolveGateway os m ''lo'' family w = Some (None, sys_close os fd w4)"
proof -
  have "to_i32 1 = 1" by (simp add: to_i32_def)
  then show ?thesis
    using assms(3,6)
    by (simp add: resolveGateway_def new_gateway_resolver_def assms(1,2,4) gr_resolve_def
        sendRequestAndDrain_def drain_dump [OF assms(5)] last_of_def split: option.split)
qed

subsection \<open>target_resolve_test.cpp\<close>

lemma targets_LiteralIPv4NoDnsLookup:
  assumes "sys_inet_pton os AF_INET ''1.1.1.1'' \<noteq> None"
  shows "resolveTargets os ''1.1.1.1'' w = (\<lparr>rt_v4 = Some ''1.1.1.1'', rt_v6 = None\<rparr>, w)"
  using assms by (simp add: resolveTargets_def tryLiteral_def no_targets_def)

lemma targets_LiteralIPv6:
  assumes "sys_inet_pton os AF_INET ''2606:4700:4700::1111'' = None"
    and "sys_inet_pton os AF_INET6 ''2606:4700:4700::1111'' \<noteq> None"
  shows "resolveTargets os ''2606:4700:4700::1111'' w = (\<lparr>rt_v4 = None, rt_v6 = Some ''2606:4700:4700::1111''\<rparr>, w)"
  using assms by (simp add: resolveTargets_def tryLiteral_def no_targets_def)

lemma targets_UnresolvableHostname:
  assumes "h = ''this-hostname-should-not-exist.invalid''"
    and "sys_inet_pton os AF_INET h = None" and "sys_inet_pton os AF_INET6 h = None"
    and "sys_getaddrinfo os h w = (None, w1)"
  shows "resolveTargets os h w = (no_targets, w1)"
  using assms(2-) by (simp add: resolveTargets_def tryLiteral_def resolveViaDns_def)

end
