(* ===== verification/Spec2Isabelle.thy ===== *)
theory Spec2Isabelle
  imports Watcher_Descriptors Watcher_Children Tray_Descriptors Tray_Types Tray_Traffic Tray_Unresolved Repository_Tests
begin

text \<open>
  Conwatch, two C++ programs. The daemon \<^verbatim>\<open>conwatch\<close> (\<^verbatim>\<open>src/src/watcher\<close>) follows the link state of
  the machine's network interfaces over netlink and keeps one process of the second program per
  interface that is up and eligible under a YAML configuration. That program, \<^verbatim>\<open>conwatch-tray\<close>
  (\<^verbatim>\<open>src/src/conwatch-tray\<close>), pings a target over IPv4 and IPv6 once a second, falls back to the
  default gateway after ten losses, and shows the result as a coloured icon in the system tray.
  \<^verbatim>\<open>src/src/shared\<close> is used by the tray only: addresses, default route, gateway setting.

  How the parts work together: the kernel's link messages (bytes in a receive array) become calls of
  \<open>onChange\<close> and \<open>onRemoved\<close>; these move the watcher's per-interface state and start or stop
  children through the process manager; the children's arguments carry the settings that the
  configuration resolves for the interface; the tray's \<open>main\<close> reads them back, resolves its targets
  and ticks; each tick sends and receives echo messages, may ask the kernel for the default route,
  and renders the tray if the state it shows has changed.

  \<^bold>\<open>The theories.\<close> The names of functions and fields are the code's; where the code has an operation
  for each protocol the name ends in 4 or 6.

  \<^item> \<open>Prelude\<close>: lemmas on lists, decimal numbers, memory and little-endian integers that the
    components share, and their simp collections. Memory (\<open>buf\<close>) is a function from addresses to
    bytes; every read checks the size of the array and gives \<open>None\<close> outside it.
  \<^item> \<open>Netlink_Wire\<close>: headers, attributes and batches of netlink messages as bytes, and the locale
    \<open>frame_loop\<close>: what a loop over the messages of a batch does, proved once, interpreted on the link
    listener (\<open>lnk\<close>) and on the route reader (\<open>rts\<close>).
  \<^item> \<open>Platform\<close>: the system calls and C library functions as the fields of a record over an arbitrary
    world; results and failures are values. Every theorem holds for all platforms, or for those that
    satisfy a named law, which quotes the documentation of the call.
  \<^item> \<open>Netlink_Watcher\<close> (\<^verbatim>\<open>netlink.cpp\<close>): opening, dump request, the attribute and message loops with the
    macros' unsigned arithmetic, the receive loop.
  \<^item> \<open>Config_Load\<close>, \<open>Config_Resolve\<close>, \<open>Config_File\<close> (\<^verbatim>\<open>config_load.cpp\<close>, \<^verbatim>\<open>config_resolve.cpp\<close>,
    \<^verbatim>\<open>config.cpp\<close>): the configuration, its checks, eligibility, the settings of an interface; where the
    file is, and its creation with every state the disk goes through. The operations of yaml-cpp,
    fnmatch and the file system are parameters.
  \<^item> \<open>Process_Manager\<close> (\<^verbatim>\<open>process_manager.cpp\<close>): the two tables, start, stop, reaping and shutdown; the
    locales \<open>child_tracker\<close> and \<open>total_child_tracker\<close> state what the watcher relies on and are
    interpreted on it (\<open>pmt\<close>, \<open>pmt_total\<close>).
  \<^item> \<open>Watcher\<close>, \<open>Watcher_Daemon\<close>, \<open>Watcher_Main\<close> (\<^verbatim>\<open>watcher_iface_state.cpp\<close>, \<^verbatim>\<open>watcher.cpp\<close>, \<^verbatim>\<open>main.cpp\<close>):
    the state machine of the interfaces with its invariant and its specification (the link table);
    signals, the poll loop and \<open>run\<close>; from datagrams to children; \<open>main\<close> (with the watcher's
    destructor, \<open>run_watcher\<close>) and the default configuration.
  \<^item> \<open>Watcher_Lifecycle\<close>, \<open>Watcher_Descriptors\<close>: what the running daemon does about a lost tray and a
    termination signal, over the rounds of its poll loop (\<open>poll_rounds\<close>) and a platform with pending
    signals, of which finitely many more may arrive at any time (\<open>signal_laws\<close>); the descriptors it holds (\<open>daemon_fd_laws\<close>).
  \<^item> \<open>Watcher_Children\<close>: what the tracked children run, over a process table that says so
    (\<open>program_laws\<close>): each the tray with the arguments of its interface (\<open>tray_acts\<close>).
  \<^item> \<open>Gateway_Override\<close>, \<open>Target_Resolve\<close>, \<open>Gateway_Resolver\<close> (\<^verbatim>\<open>shared/\<close>): the setting, the targets, and
    the default route as read from a dump.
  \<^item> \<open>Checksum\<close>, \<open>Icmp\<close> (\<^verbatim>\<open>ping_monitor_addr.cpp\<close>, \<^verbatim>\<open>ping_monitor_socket4.cpp\<close>,
    \<^verbatim>\<open>ping_monitor_socket6.cpp\<close>): the checksum against the one's complement sum of RFC 1071, the
    requests, the matching of replies (locale \<open>echo_family\<close>, interpreted as \<open>echo4\<close> and \<open>echo6\<close>), the
    receive loop, the interface's addresses.
  \<^item> \<open>Ping_Track\<close>, \<open>Ping_State\<close>, \<open>Ping_Protocols\<close> (\<^verbatim>\<open>ping_monitor.hpp\<close>, \<^verbatim>\<open>ping_monitor_tick.cpp\<close>): one
    protocol as a machine over a \<open>family\<close>, the monitor's fields, and the operations of both protocols
    as the code writes them, proved to be that machine twice.
  \<^item> \<open>Ping_Status\<close>, \<open>Ping_Icon\<close>, \<open>Ping_Monitor\<close> (\<^verbatim>\<open>ping_monitor_status_text.cpp\<close>,
    \<^verbatim>\<open>ping_monitor_icon.cpp\<close>, \<^verbatim>\<open>ping_monitor.cpp\<close>): colour, glyph and texts; painting operations and the
    icon cache; construction, the timer, the calls made on the tray, and the invariant that relates
    them to the state.
  \<^item> \<open>Tray_Main\<close>, \<open>Tray_Descriptors\<close>, \<open>Tray_Types\<close> (\<^verbatim>\<open>conwatch-tray/main.cpp\<close>): arguments, the states of
    a running tray and what its user can rely on; the descriptors it holds; the values its fields take
    (\<open>track_typed\<close>: addresses of the protocol's family where the code passes them to \<open>inet_pton\<close>).
  \<^item> \<open>Tray_History\<close>: what is shown, without state. A tick finds out one of three things about a protocol
    (\<open>ping_event\<close>), and colour, glyph and texts are functions of the two histories (\<open>shown_colour\<close>,
    \<open>shown_glyph\<close>, \<open>shown_text\<close>); the monitor shows just that. They are the code's rules; the README's colour
    (\<open>readme_colour\<close>) is the same but for two cases (\<open>departs\<close>).
  \<^item> \<open>Tray_Traffic\<close>, \<open>Tray_Unresolved\<close>: what a tray does when its socket hears only other programs'
    messages (\<open>foreign_traffic\<close>), and when its target could not be resolved when it started (\<open>unresolved_at\<close>).
  \<^item> \<open>Repository_Tests\<close>: the assertions of the repository's test cases (\<^verbatim>\<open>tests/\<close>), as lemmas on the model.
  \<^item> This theory: the two programs together, from the settings in the file to the monitor and from the
    link messages on the socket to the icons on the screen (\<open>shows_interface\<close>).

  \<^bold>\<open>What the lemmas show.\<close> For each component the lemmas come in groups: what an operation leaves alone
  (\<open>_frame\<close>), what it keeps of the invariant (\<open>_inv\<close>, \<open>_ok\<close>), what it does on each path (\<open>_cases\<close>,
  \<open>_parts\<close>, \<open>_simps\<close>); reachable states are inductive predicates (\<open>watcher_reachable\<close>,
  \<open>pm_reachable\<close>, \<open>track_reachable\<close>, \<open>monitor_reachable\<close>, \<open>monitor_history\<close>, \<open>tray_runs\<close>, \<open>monitor_life\<close>, \<open>ticks_to\<close>) whose
  steps are the operations, and the properties follow from the invariants. Loops that may not end have
  induction rules over their returning runs (\<open>reapExited_induct\<close>, \<open>handleSignals_induct\<close>,
  \<open>watcher_poll_induct\<close>). Wire formats have round trips: what the kernel encodes is what the program
  reports. Where the README documents a rule that the code orders differently, both are defined and
  compared (\<open>documented_colour\<close> and \<open>colour_of\<close>, \<open>readme_colour\<close> and \<open>shown_colour\<close>).

  \<^bold>\<open>Termination, fuel and bounds.\<close> Loops over messages and attributes whose length could wrap, the
  receive loops, reaping and the poll loop are partial functions whose \<open>None\<close> is a loop that does
  not end or a read outside the array; that they return is a theorem wherever it is so (a tick returns
  during an outage, \<open>outage\<close>, and may not with foreign traffic). An exception that escapes a loop comes
  with the state the callbacks have reached. The only
  fuel is the code's own: \<open>stopAll\<close> waits at most 200 times, enough when at most 200 children are
  not yet waited for. Netlink lengths, \<open>size_t\<close> and \<open>int\<close> conversions, checksums, identifiers and
  sequence numbers are modular or words of their width. The loss counter is an \<open>int\<close> of the model:
  the code's overflows after 68 years of losses.

  \<^bold>\<open>Not modelled.\<close> Log output (\<^verbatim>\<open>fprintf\<close>, \<^verbatim>\<open>perror\<close>), the flags of address lookups, and Qt: the event loop is
  the order of the ticks, a pixmap is the operations painted on it, and strings are their UTF-8 bytes,
  so that the tag of an interface is right for names in ASCII. The time a wait takes is not
  modelled, only whether it ends. Scripts, build rules and service files hold no logic of the programs;
  of the headers, what is left out are declarations and accessors.
\<close>

section \<open>The two programs together\<close>

text \<open>
  \<open>QApplication\<close> takes the options it knows out of the arguments, all of which begin with a dash; it
  leaves arguments without any such string alone.
\<close>

definition qapp_laws :: "(string list \<Rightarrow> string list) \<Rightarrow> bool" where
  "qapp_laws qapp \<longleftrightarrow> (\<forall>argv. (\<forall>a \<in> set argv. a = [] \<or> hd a \<noteq> CHR ''-'') \<longrightarrow> qapp argv = argv)"

lemma start_forks:
  assumes "isEligible fnm (w_cfg wt) name" and "\<not> isRunning (w_processes wt) i"
  shows "snd (startIfEligible fnm os i name (wt, w)) =
    snd (sys_fork os [Sigprocmask_set [], Execlp ''/usr/local/bin/conwatch-tray'' (tray_argv (w_cfg wt) name), Exit_now 127] w)"
  using assms by (simp add: startIfEligible_def pm_start_def tray_child_def tray_argv_def Let_def split: prod.split)

text \<open>C8: The settings survive the way from the configuration to the monitor: for an eligible interface
  without a tray, the watcher forks a child that unblocks its signals and executes the tray with certain
  arguments; and if none of the interface's name and settings begins with a dash (\<open>QApplication\<close> takes
  out arguments that it knows as its options) and a system tray is available, the tray's \<open>main\<close> makes
  of exactly those arguments the monitor of that interface with the target, IPv6 target, label and
  gateway overrides the configuration resolves for it, empty ones included.\<close>

theorem settings_reach_the_tray:
  assumes "isEligible fnm (w_cfg wt) name" and "\<not> isRunning (w_processes wt) i" and "qapp_laws qapp"
    and "\<forall>a \<in> set (tray_argv (w_cfg wt) name). a = [] \<or> hd a \<noteq> CHR ''-''"
  shows "\<exists>argv. snd (startIfEligible fnm os i name (wt, w)) =
      snd (sys_fork os [Sigprocmask_set [], Execlp ''/usr/local/bin/conwatch-tray'' argv, Exit_now 127] w) \<and>
    tray_main q os' qapp True argv w' =
      apfst Inr (newPingMonitor q os' name (resolveTarget (w_cfg wt) name) (resolveTarget6 (w_cfg wt) name)
        (resolveLabel (w_cfg wt) name) (resolveGatewayIpOverride4 (w_cfg wt) name)
        (resolveGatewayIpOverride6 (w_cfg wt) name) w')"
proof (intro exI conjI)
  show "snd (startIfEligible fnm os i name (wt, w)) =
      snd (sys_fork os [Sigprocmask_set [], Execlp ''/usr/local/bin/conwatch-tray'' (tray_argv (w_cfg wt) name), Exit_now 127] w)"
    using assms(1,2) by (rule start_forks)
  have "qapp (tray_argv (w_cfg wt) name) = tray_argv (w_cfg wt) name"
    using assms(3,4) by (simp add: qapp_laws_def)
  then show "tray_main q os' qapp True (tray_argv (w_cfg wt) name) w' =
      apfst Inr (newPingMonitor q os' name (resolveTarget (w_cfg wt) name) (resolveTarget6 (w_cfg wt) name)
        (resolveLabel (w_cfg wt) name) (resolveGatewayIpOverride4 (w_cfg wt) name)
        (resolveGatewayIpOverride6 (w_cfg wt) name) w')"
    by (simp add: tray_main_def tray_argsValid_def tray_argv_def apfst_def map_prod_def case_prod_unfold Let_def)
qed

lemma sample_argv:
  "tray_argv sample_config ''wg0'' = [''conwatch-tray'', ''wg0'', ''10.0.0.1'', [], ''VPN'', [], ''none'']"
  by (simp add: tray_argv_def sample_config_def resolveTarget_def resolveTarget6_def resolveLabel_def
      resolveGatewayIpOverride4_def resolveGatewayIpOverride6_def)

theorem settings_reach_the_tray_witness:
  "\<exists>argv. snd (startIfEligible star_match list_os 4 ''wg0'' (new_watcher sample_config [], [])) =
      snd (sys_fork list_os [Sigprocmask_set [], Execlp ''/usr/local/bin/conwatch-tray'' argv, Exit_now 127] []) \<and>
    tray_main ascii_qt (idle_os :: unit os) (\<lambda>a. a) True argv () =
      apfst Inr (newPingMonitor ascii_qt idle_os ''wg0'' ''10.0.0.1'' [] ''VPN'' [] ''none'' ())"
proof -
  let ?wt = "new_watcher sample_config []"
  have e: "isEligible star_match (w_cfg ?wt) ''wg0''" "\<not> isRunning (w_processes ?wt) 4" "qapp_laws (\<lambda>a. a)"
    "\<forall>a \<in> set (tray_argv (w_cfg ?wt) ''wg0''). a = [] \<or> hd a \<noteq> CHR ''-''"
    by (simp_all add: new_watcher_def sample_config_def isEligible_def isRunning_def new_process_manager_def
        qapp_laws_def sample_argv [unfolded sample_config_def])
  show ?thesis
    using settings_reach_the_tray [OF e, of list_os "[]" ascii_qt "idle_os :: unit os" "()"]
    by (simp add: new_watcher_def sample_config_def resolveTarget_def resolveTarget6_def resolveLabel_def
      resolveGatewayIpOverride4_def resolveGatewayIpOverride6_def)
qed

text \<open>C5: The setting none in the configuration file means never blue: if the interface's entry disables
  both gateway checks, in any case, then no state of any tray the watcher starts for that
  interface (Qt leaving its arguments as they are) shows a blue icon, whatever the network does.\<close>

theorem none_in_the_file_is_never_blue:
  assumes "interfaces cfg name = Some ov" and "ov_gatewayIpOverride4 ov = Some g4" and "ov_gatewayIpOverride6 ov = Some g6"
    and "toLower g4 = ''none''" and "toLower g6 = ''none''"
    and "qapp (tray_argv cfg name) = tray_argv cfg name"
    and "tray_runs q os junk qapp avail (tray_argv cfg name) mon"
  shows "last_of (icons_set (m_tray mon)) \<noteq> Some (paintIcon (qt_ink q) (m_ifaceTag mon) Blue glyph)"
proof -
  have "qapp (tray_argv cfg name) = [''conwatch-tray'', name, resolveTarget cfg name, resolveTarget6 cfg name,
      resolveLabel cfg name, g4, g6]"
    using assms(1-3,6) by (simp add: tray_argv_def resolveGatewayIpOverride4_def resolveGatewayIpOverride6_def)
  from tray_never_blue [OF assms(7) this assms(4,5)] show ?thesis .
qed

text \<open>A configuration that disables both checks for one interface.\<close>

definition none_config :: config where
  "none_config = new_config\<lparr>interfaces := [''wlan0'' \<mapsto> new_override\<lparr>ov_label := ''WiFi'',
     ov_gatewayIpOverride4 := Some ''none'', ov_gatewayIpOverride6 := Some ''NONE''\<rparr>]\<rparr>"

theorem none_in_the_file_is_never_blue_witness:
  "\<exists>mon. fst (tray_main ascii_qt (idle_os :: unit os) (\<lambda>a. a) True (tray_argv none_config ''wlan0'') ()) = Inr mon \<and>
     last_of (icons_set (m_tray mon)) \<noteq> Some (paintIcon (qt_ink ascii_qt) (m_ifaceTag mon) Blue ''4/6'')"
proof -
  let ?ov = "new_override\<lparr>ov_label := ''WiFi'', ov_gatewayIpOverride4 := Some ''none'', ov_gatewayIpOverride6 := Some ''NONE''\<rparr>"
  have ov: "interfaces none_config ''wlan0'' = Some ?ov" by (simp add: none_config_def)
  have l: "toLower ''none'' = ''none''" "toLower ''NONE'' = ''none''" by code_simp+
  obtain mon where m: "tray_main ascii_qt (idle_os :: unit os) (\<lambda>a. a) True (tray_argv none_config ''wlan0'') () = (Inr mon, ())"
    by (auto simp: tray_main_def tray_argsValid_def tray_argv_def Let_def case_prod_unfold)
  then have r: "tray_runs ascii_qt (idle_os :: unit os) (\<lambda>_ _. 0) (\<lambda>a. a) True (tray_argv none_config ''wlan0'') mon"
    by (rule tray_runs.started)
  from none_in_the_file_is_never_blue [OF ov _ _ l _ r, of "''4/6''"] m show ?thesis by simp
qed

text \<open>
  What a user sees of an interface: every state of the tray that runs with these arguments shows the
  interface's label and what has happened to its pings.
\<close>

definition shows_interface ::
  "qt \<Rightarrow> 'w os \<Rightarrow> ('w \<Rightarrow> buf) \<Rightarrow> (string list \<Rightarrow> string list) \<Rightarrow> config \<Rightarrow> string \<Rightarrow> string list \<Rightarrow> bool" where
  "shows_interface q os junk qapp cfg n argv \<longleftrightarrow>
     (\<forall>mon. tray_runs q os junk qapp True argv mon \<longrightarrow> m_iface mon = n \<and>
       (\<exists>h4 h6. monitor_history q os junk h4 h6 mon \<and>
         last_of (icons_set (m_tray mon)) =
           Some (paintIcon (qt_ink q) (shortIfaceTag q n) (shown_colour h4 h6) (shown_glyph h4 h6)) \<and>
         last_of (texts_set (m_tray mon)) = Some (shown_text (resolveLabel cfg n) h4 h6) \<and>
         last_of (tooltips_set (m_tray mon)) = Some (shown_text (resolveLabel cfg n) h4 h6)))"

lemma tray_argv_shows:
  assumes "qapp_laws qapp" and "\<forall>a \<in> set (tray_argv cfg n). a = [] \<or> hd a \<noteq> CHR ''-''"
  shows "shows_interface q os junk qapp cfg n (tray_argv cfg n)"
  unfolding shows_interface_def
proof (intro allI impI)
  fix mon
  assume r: "tray_runs q os junk qapp True (tray_argv cfg n) mon"
  have "qapp (tray_argv cfg n) = tray_argv cfg n" using assms by (simp add: qapp_laws_def)
  also note tray_argv_def
  finally have args: "qapp (tray_argv cfg n) = [''conwatch-tray'', n, resolveTarget cfg n, resolveTarget6 cfg n,
    resolveLabel cfg n, resolveGatewayIpOverride4 cfg n, resolveGatewayIpOverride6 cfg n]" .
  from tray_runs_names [OF r args] have names: "m_iface mon = n" "m_label mon = resolveLabel cfg n" "m_ifaceTag mon = shortIfaceTag q n"
    by simp_all
  from tray_runs_reachable [OF r] obtain h4 h6 where h: "monitor_history q os junk h4 h6 mon"
    unfolding reachable_has_history by blast
  from history_shown [OF h] names h show "m_iface mon = n \<and> (\<exists>h4 h6. monitor_history q os junk h4 h6 mon \<and>
      last_of (icons_set (m_tray mon)) =
        Some (paintIcon (qt_ink q) (shortIfaceTag q n) (shown_colour h4 h6) (shown_glyph h4 h6)) \<and>
      last_of (texts_set (m_tray mon)) = Some (shown_text (resolveLabel cfg n) h4 h6) \<and>
      last_of (tooltips_set (m_tray mon)) = Some (shown_text (resolveLabel cfg n) h4 h6))" by auto
qed


lemma sample_children_delivered:
  "delivers prog_os fd (onChange star_match prog_os) (onRemoved prog_os) [sample_batch]
     (new_watcher sample_config [], [], [concat (map enc_link sample_batch)])
     (onRemoved prog_os (-1) (onChange star_match prog_os 3 ''wlan0'' True (new_watcher sample_config [], [], [])))"
proof (rule delivers.batch [where ?w1.0 = "([], [])"])
  have o: "onRemoved prog_os (-1) (onChange star_match prog_os 3 ''wlan0'' True (new_watcher sample_config [], [], [])) =
      onChange star_match prog_os 3 ''wlan0'' True (new_watcher sample_config [], [], [])"
    unfolding sample_child by (simp add: onRemoved_def)
  have r: "sys_recv prog_os fd True ([(1, tray_acts sample_config ''wlan0'')], []) =
      (None, [(1, tray_acts sample_config ''wlan0'')], [])"
    by (simp add: prog_os_def)
  show "delivers prog_os fd (onChange star_match prog_os) (onRemoved prog_os) []
      (fold (apply_event (onChange star_match prog_os) (onRemoved prog_os)) (concat (map event_of sample_batch))
        (new_watcher sample_config [], [], []))
      (onRemoved prog_os (-1) (onChange star_match prog_os 3 ''wlan0'' True (new_watcher sample_config [], [], [])))"
    by (simp only: sample_batch_good fold.simps apply_event.simps comp_def id_def sample_child o [unfolded sample_child])
      (rule delivers.nothing [OF r])
qed (simp_all add: sample_batch_good prog_os_def, simp add: sample_batch_def)


end
